theory Spec2Isabelle
  imports Complex_Main "HOL-Library.Sublist"
begin

section \<open>Strings as byte sequences\<close>

text \<open>
  A Go string is a sequence of bytes; \<open>string\<close> (a list of 8-bit \<open>char\<close>s) is used for it.
  Text that Go reads as UTF-8 (\<open>strings.TrimSpace\<close>, the regular expression engine) is
  modelled on the bytes of the encoding.
\<close>

text \<open>
  \<open>unicode.IsSpace\<close>: the code points U+0009..U+000D, U+0020, U+0085, U+00A0, U+1680,
  U+2000..U+200A, U+2028, U+2029, U+202F, U+205F and U+3000, each given here by its UTF-8
  encoding. Overlong or otherwise invalid encodings decode to U+FFFD, which is no space.
\<close>

definition space_runes :: "string list" where
  "space_runes =
     [[CHR 0x09], [CHR 0x0A], [CHR 0x0B], [CHR 0x0C], [CHR 0x0D], [CHR 0x20],
      [CHR 0xC2, CHR 0x85], [CHR 0xC2, CHR 0xA0],
      [CHR 0xE1, CHR 0x9A, CHR 0x80],
      [CHR 0xE2, CHR 0x80, CHR 0x80], [CHR 0xE2, CHR 0x80, CHR 0x81],
      [CHR 0xE2, CHR 0x80, CHR 0x82], [CHR 0xE2, CHR 0x80, CHR 0x83],
      [CHR 0xE2, CHR 0x80, CHR 0x84], [CHR 0xE2, CHR 0x80, CHR 0x85],
      [CHR 0xE2, CHR 0x80, CHR 0x86], [CHR 0xE2, CHR 0x80, CHR 0x87],
      [CHR 0xE2, CHR 0x80, CHR 0x88], [CHR 0xE2, CHR 0x80, CHR 0x89],
      [CHR 0xE2, CHR 0x80, CHR 0x8A],
      [CHR 0xE2, CHR 0x80, CHR 0xA8], [CHR 0xE2, CHR 0x80, CHR 0xA9],
      [CHR 0xE2, CHR 0x80, CHR 0xAF],
      [CHR 0xE2, CHR 0x81, CHR 0x9F],
      [CHR 0xE3, CHR 0x80, CHR 0x80]]"

text \<open>
  \<open>strings.TrimLeftFunc(s, unicode.IsSpace)\<close>: decode the rune at the front and drop it
  while it is a space. The front rune is a space exactly when the string starts with one of
  the encodings above.
\<close>

function TrimLeft :: "string \<Rightarrow> string" where
  "TrimLeft s =
     (case find (\<lambda>w. prefix w s) space_runes of
        Some w \<Rightarrow> TrimLeft (drop (length w) s)
      | None \<Rightarrow> s)"
  by pat_completeness auto

text \<open>
  \<open>strings.TrimRightFunc(s, unicode.IsSpace)\<close>: decode the last rune and drop it while it
  is a space. \<open>utf8.DecodeLastRuneInString\<close> steps back to the nearest start byte and
  accepts the rune only if it ends the string, so the last rune is a space exactly when
  the string ends with one of the encodings above.
\<close>

function TrimRight :: "string \<Rightarrow> string" where
  "TrimRight s =
     (case find (\<lambda>w. suffix w s) space_runes of
        Some w \<Rightarrow> TrimRight (take (length s - length w) s)
      | None \<Rightarrow> s)"
  by pat_completeness auto

termination TrimLeft
proof (relation "measure length")
  show "wf (measure length)" by simp
next
  fix s :: string and w
  assume "find (\<lambda>w. prefix w s) space_runes = Some w"
  then obtain i where "i < length space_runes" "w = space_runes ! i" "prefix w s"
    by (auto simp: find_Some_iff)
  then have "w \<in> set space_runes" "length w \<le> length s"
    by (auto simp: prefix_length_le)
  then have "w \<noteq> []" "length w \<le> length s"
    by (auto simp: space_runes_def)
  then show "(drop (length w) s, s) \<in> measure length"
    by (cases w) auto
qed

termination TrimRight
proof (relation "measure length")
  show "wf (measure length)" by simp
next
  fix s :: string and w
  assume "find (\<lambda>w. suffix w s) space_runes = Some w"
  then obtain i where "i < length space_runes" "w = space_runes ! i" "suffix w s"
    by (auto simp: find_Some_iff)
  then have "w \<in> set space_runes" "length w \<le> length s"
    by (auto simp: suffix_length_le)
  then have "w \<noteq> []" "length w \<le> length s"
    by (auto simp: space_runes_def)
  then show "(take (length s - length w) s, s) \<in> measure length"
    by (cases w) auto
qed

declare TrimLeft.simps [simp del]
declare TrimRight.simps [simp del]

text \<open>\<open>strings.TrimSpace\<close>: trim on the left, then on the right.\<close>

definition TrimSpace :: "string \<Rightarrow> string" where
  "TrimSpace s = TrimRight (TrimLeft s)"

text \<open>
  \<open>strings.Split(s, sep)\<close> for a one-byte separator: the pieces between the separators,
  one more than there are separators (so the empty string gives one empty piece).
\<close>

fun Split :: "string \<Rightarrow> char \<Rightarrow> string list" where
  "Split [] sep = [[]]"
| "Split (c # cs) sep =
     (if c = sep then [] # Split cs sep
      else (case Split cs sep of [] \<Rightarrow> [[c]] | l # ls \<Rightarrow> (c # l) # ls))"

text \<open>\<open>strings.Contains(s, substr)\<close>.\<close>

definition Contains :: "string \<Rightarrow> string \<Rightarrow> bool" where
  "Contains s substr = sublist substr s"

section \<open>The voice pattern\<close>

text \<open>
  The regular expression \<^verbatim>\<open>^(.+?)\s+(\S+)\s+#\s*(.*)$\<close> of \<open>voicePattern\<close>.
  The pattern is a sequence of repeated one-character classes between the anchors \<open>^\<close>
  and \<open>$\<close> (no flags, so \<open>$\<close> is the end of the text and \<open>.\<close> excludes the newline).
  Go's \<open>regexp\<close> returns the match a backtracking search finds first; for such a sequence
  the search tries, for each piece in turn, the repetition counts in the order of the
  quantifier's preference (greedy: longest first; lazy: shortest first) and keeps the first
  count for which the rest of the pattern matches the rest of the text.

  The classes are ASCII sets and every capture is delimited by ASCII bytes, so matching
  bytes and matching runes give the same captures.
\<close>

datatype cls = Dot | Space | NonSpace | Lit char

fun cls_match :: "cls \<Rightarrow> char \<Rightarrow> bool" where
  "cls_match Dot c = (c \<noteq> CHR 0x0A)"
| "cls_match Space c = (c \<in> {CHR 0x09, CHR 0x0A, CHR 0x0C, CHR 0x0D, CHR 0x20})"
| "cls_match NonSpace c = (c \<notin> {CHR 0x09, CHR 0x0A, CHR 0x0C, CHR 0x0D, CHR 0x20})"
| "cls_match (Lit a) c = (c = a)"

datatype quant = Once | StarGreedy | PlusGreedy | PlusLazy

text \<open>
  The repetition counts a piece may take at the front of \<open>s\<close>, in the order the search
  tries them; \<open>n\<close> is the length of the longest run of the class.
\<close>

definition counts :: "cls \<Rightarrow> quant \<Rightarrow> string \<Rightarrow> nat list" where
  "counts c q s =
     (let n = length (takeWhile (cls_match c) s) in
      case q of
        Once \<Rightarrow> (if 1 \<le> n then [1] else [])
      | StarGreedy \<Rightarrow> rev [0..<Suc n]
      | PlusGreedy \<Rightarrow> rev [1..<Suc n]
      | PlusLazy \<Rightarrow> [1..<Suc n])"

text \<open>
  The anchored search: the text each piece consumed, or \<open>None\<close> when the pattern does not
  match the whole of \<open>s\<close>.
\<close>

fun rematch :: "(cls \<times> quant) list \<Rightarrow> string \<Rightarrow> string list option" where
  "rematch [] s = (if s = [] then Some [] else None)"
| "rematch ((c, q) # ps) s =
     (case find (\<lambda>k. rematch ps (drop k s) \<noteq> None) (counts c q s) of
        None \<Rightarrow> None
      | Some k \<Rightarrow> map_option ((#) (take k s)) (rematch ps (drop k s)))"

definition voicePattern :: "(cls \<times> quant) list" where
  "voicePattern =
     [(Dot, PlusLazy), (Space, PlusGreedy), (NonSpace, PlusGreedy), (Space, PlusGreedy),
      (Lit (CHR ''#''), Once), (Space, StarGreedy), (Dot, StarGreedy)]"

text \<open>
  \<open>voicePattern.FindStringSubmatch(line)\<close>: nil (the empty list) without a match, else
  the whole match followed by the three captures, which are pieces 0, 2 and 6.
\<close>

definition FindStringSubmatch :: "string \<Rightarrow> string list" where
  "FindStringSubmatch line =
     (case rematch voicePattern line of
        None \<Rightarrow> []
      | Some segs \<Rightarrow> [line, segs ! 0, segs ! 2, segs ! 6])"

section \<open>Parsing the voice catalog\<close>

record Voice =
  Name :: string
  Locale :: string
  Description :: string

text \<open>
  The loop \<open>for _, line := range lines\<close> of \<open>handleVoices\<close> (the same in both source
  files), with the slice \<open>voices\<close> as accumulator.
\<close>

fun parse_lines :: "Voice list \<Rightarrow> string list \<Rightarrow> Voice list" where
  "parse_lines voices [] = voices"
| "parse_lines voices (line # rest) =
     (let line = TrimSpace line in
      if line = [] then parse_lines voices rest
      else
        let matches = FindStringSubmatch line in
        if length matches = 4
        then parse_lines
               (voices @ [\<lparr>Name = TrimSpace (matches ! 1),
                           Locale = TrimSpace (matches ! 2),
                           Description = TrimSpace (matches ! 3)\<rparr>]) rest
        else parse_lines voices rest)"

definition parseVoices :: "string \<Rightarrow> Voice list" where
  "parseVoices output = parse_lines [] (Split output (CHR 0x0A))"

text \<open>The records one line contributes: one pass of the loop body.\<close>

definition parse_line :: "string \<Rightarrow> Voice list" where
  "parse_line line = parse_lines [] [line]"

section \<open>The shape of a catalog line\<close>

text \<open>
  What the pattern accepts, without the search order: a division of the text into one
  piece per element of the pattern, each piece made of characters of the element's class
  and of a length its quantifier allows.
\<close>

fun quant_ok :: "quant \<Rightarrow> nat \<Rightarrow> bool" where
  "quant_ok Once n = (n = 1)"
| "quant_ok StarGreedy n = True"
| "quant_ok PlusGreedy n = (1 \<le> n)"
| "quant_ok PlusLazy n = (1 \<le> n)"

fun fits :: "(cls \<times> quant) list \<Rightarrow> string list \<Rightarrow> bool" where
  "fits [] segs = (segs = [])"
| "fits ((c, q) # ps) [] = False"
| "fits ((c, q) # ps) (seg # segs) =
     (list_all (cls_match c) seg \<and> quant_ok q (length seg) \<and> fits ps segs)"

text \<open>
  The expected catalog line of the specification: name, white space, locale, white space,
  the marker \<open>#\<close>, optional white space, description, read on the trimmed line. White
  space is the pattern's class \<open>\s\<close>; the name and the description hold no newline.
\<close>

definition pattern_space :: "char set" where
  "pattern_space = {CHR 0x09, CHR 0x0A, CHR 0x0C, CHR 0x0D, CHR 0x20}"

definition well_formed_line :: "string \<Rightarrow> bool" where
  "well_formed_line line =
     (\<exists>name ws1 locale ws2 ws3 description.
        TrimSpace line = name @ ws1 @ locale @ ws2 @ ''#'' @ ws3 @ description \<and>
        name \<noteq> [] \<and> CHR 0x0A \<notin> set name \<and>
        ws1 \<noteq> [] \<and> set ws1 \<subseteq> pattern_space \<and>
        locale \<noteq> [] \<and> set locale \<inter> pattern_space = {} \<and>
        ws2 \<noteq> [] \<and> set ws2 \<subseteq> pattern_space \<and>
        set ws3 \<subseteq> pattern_space \<and>
        CHR 0x0A \<notin> set description)"


section \<open>Numbers and their rendering\<close>

text \<open>
  A Go \<open>float64\<close>. A finite value is kept as the rational number it denotes: comparison
  and \<open>%.0f\<close> formatting are exact functions of that number. (Negative zero is not told
  apart from zero; the handlers format a rate only after \<open>rate > 0\<close>.)
\<close>

datatype float64 = Finite rat | PosInf | NegInf | NaN

fun f64_gt :: "float64 \<Rightarrow> rat \<Rightarrow> bool" where
  "f64_gt (Finite r) c = (c < r)"
| "f64_gt PosInf c = True"
| "f64_gt NegInf c = False"
| "f64_gt NaN c = False"

fun f64_lt :: "float64 \<Rightarrow> rat \<Rightarrow> bool" where
  "f64_lt (Finite r) c = (r < c)"
| "f64_lt PosInf c = False"
| "f64_lt NegInf c = True"
| "f64_lt NaN c = False"

text \<open>The decimal digits of a natural number.\<close>

fun decimal :: "nat \<Rightarrow> string" where
  "decimal n =
     (if n < 10 then [''0123456789'' ! n]
      else decimal (n div 10) @ [''0123456789'' ! (n mod 10)])"

declare decimal.simps [simp del]

text \<open>Reading a decimal token back: the number its digits denote.\<close>

definition undecimal :: "string \<Rightarrow> nat" where
  "undecimal s = foldl (\<lambda>a c. 10 * a + (of_char c - 48)) 0 s"

text \<open>
  \<open>strconv\<close> rounds the exact decimal expansion to the requested number of digits, a tie
  going to the even neighbour.
\<close>

definition round_half_even :: "rat \<Rightarrow> int" where
  "round_half_even r =
     (let f = \<lfloor>r\<rfloor>; d = r - of_int f in
      if d < 1 / 2 then f
      else if 1 / 2 < d then f + 1
      else if even f then f else f + 1)"

text \<open>\<open>fmt.Sprintf("%.0f", x)\<close>.\<close>

fun Sprintf_f0 :: "float64 \<Rightarrow> string" where
  "Sprintf_f0 (Finite r) =
     (if r < 0 then ''-'' else []) @ decimal (nat (round_half_even \<bar>r\<bar>))"
| "Sprintf_f0 PosInf = ''+Inf''"
| "Sprintf_f0 NegInf = ''-Inf''"
| "Sprintf_f0 NaN = ''NaN''"

section \<open>Requests, results and the environment\<close>

text \<open>
  The dynamic values of the argument map (\<open>map[string]any\<close>): a string, a \<open>float64\<close>
  (what every JSON number decodes to), or a value of any other dynamic type.
\<close>

datatype any = AString string | AFloat64 float64 | AOther

type_synonym CallToolRequest = "string \<rightharpoonup> any"

text \<open>
  \<open>request.GetArguments()\<close>: the argument map (a request is modelled by this map; a
  missing key reads as the nil interface, for which every type assertion fails).
\<close>

definition GetArguments :: "CallToolRequest \<Rightarrow> (string \<rightharpoonup> any)" where
  "GetArguments request = request"

text \<open>
  \<open>request.RequireString(key)\<close> of the host library \<open>mcp-go\<close>: the string stored under
  the key, or an error when the key is missing or holds no string. \<open>Inl\<close> carries the
  error's text.
\<close>

definition RequireString :: "CallToolRequest \<Rightarrow> string \<Rightarrow> string + string" where
  "RequireString request key =
     (case GetArguments request key of
        Some (AString str) \<Rightarrow> Inr str
      | Some _ \<Rightarrow> Inl (''argument '' @ [CHR 0x22] @ key @ [CHR 0x22] @ '' is not a string'')
      | None \<Rightarrow> Inl (''required argument '' @ [CHR 0x22] @ key @ [CHR 0x22] @ '' not found''))"

text \<open>\<open>mcp.NewToolResultError\<close> and \<open>mcp.NewToolResultText\<close>.\<close>

datatype CallToolResult = ToolResultError string | ToolResultText string

text \<open>
  \<open>ctx.Err()\<close> is nil, \<open>context.Canceled\<close> or \<open>context.DeadlineExceeded\<close>. The handlers
  read it after the command has returned; the model takes that one value.
\<close>

datatype ctx_err = Canceled | DeadlineExceeded

definition errors_Is :: "ctx_err option \<Rightarrow> ctx_err \<Rightarrow> bool" where
  "errors_Is e target = (e = Some target)"

text \<open>\<open>%v\<close> of \<open>ctx.Err()\<close>.\<close>

fun Sprintf_v :: "ctx_err option \<Rightarrow> string" where
  "Sprintf_v None = ''<nil>''"
| "Sprintf_v (Some Canceled) = ''context canceled''"
| "Sprintf_v (Some DeadlineExceeded) = ''context deadline exceeded''"

text \<open>
  What \<open>cmd.CombinedOutput()\<close> returns: the captured bytes and, when the error is not nil,
  the text of \<open>err.Error()\<close>. The operating system is a function from the command line to
  this outcome.
\<close>

record exec_result =
  Output :: string
  Err :: "string option"

type_synonym runner = "string \<Rightarrow> string list \<Rightarrow> exec_result"

definition sayCommand :: string where
  "sayCommand = ''/usr/bin/say''"

definition permissionGuidance :: string where
  "permissionGuidance =
     [CHR 0x0A, CHR 0x0A] @ ''Permission denied. Please ensure:'' @ [CHR 0x0A] @
     ''1. The application has accessibility permissions in System Preferences'' @ [CHR 0x0A] @
     ''2. You are running in a user session with audio output available'' @ [CHR 0x0A] @
     ''3. You are not running in an SSH session without audio forwarding''"

section \<open>The handlers of \<open>src/main.go\<close>\<close>

text \<open>
  A handler returns its result together with the commands it started (path and argument
  list), in order; the second \<open>error\<close> result of the Go functions is always nil.
\<close>

text \<open>
  The blocks of \<open>handleSpeak\<close> that are the same in both source files.
  \<open>add_voice\<close> is the block \<open>if voice, ok := allArgs["voice"].(string); ok && voice != ""\<close>;
  \<open>add_rate\<close> is the block \<open>if rate, ok := allArgs["rate"].(float64); ok && rate > 0\<close>,
  with \<open>Inl\<close> for its early return of an error result.
\<close>

definition add_voice :: "(string \<rightharpoonup> any) \<Rightarrow> string list \<Rightarrow> string list" where
  "add_voice allArgs args =
     (case allArgs ''voice'' of
        Some (AString voice) \<Rightarrow> if voice \<noteq> [] then args @ [''-v'', voice] else args
      | _ \<Rightarrow> args)"

definition add_rate :: "(string \<rightharpoonup> any) \<Rightarrow> string list \<Rightarrow> string + string list" where
  "add_rate allArgs args =
     (case allArgs ''rate'' of
        Some (AFloat64 rate) \<Rightarrow>
          if f64_gt rate 0 then
            if f64_lt rate 90 \<or> f64_gt rate 500
            then Inl (''Rate '' @ Sprintf_f0 rate @
                      '' is outside acceptable range (90-500 words per minute)'')
            else Inr (args @ [''-r'', Sprintf_f0 rate])
          else Inr args
      | _ \<Rightarrow> Inr args)"

text \<open>The block \<open>if err != nil\<close> of \<open>handleSpeak\<close> in \<open>src/main.go\<close>: the error text.\<close>

definition speak_failure_main :: "ctx_err option \<Rightarrow> string \<Rightarrow> string \<Rightarrow> string" where
  "speak_failure_main ctxErr err output =
     (if errors_Is ctxErr Canceled \<or> errors_Is ctxErr DeadlineExceeded
      then ''Speech synthesis cancelled: '' @ Sprintf_v ctxErr
      else
        let errMsg = ''Failed to execute speech synthesis: '' @ err;
            errMsg = (if 0 < length output
                      then errMsg @ [CHR 0x0A] @ ''Output: '' @ output
                      else errMsg);
            errMsg = (if Contains err ''permission denied''
                      then errMsg @ permissionGuidance else errMsg)
        in errMsg)"

definition handleSpeak_main ::
  "ctx_err option \<Rightarrow> runner \<Rightarrow> CallToolRequest \<Rightarrow>
     CallToolResult \<times> (string \<times> string list) list" where
  "handleSpeak_main ctxErr run request =
     (case RequireString request ''text'' of
        Inl err \<Rightarrow> (ToolResultError (''Invalid parameter 'text': '' @ err), [])
      | Inr text \<Rightarrow>
          let text = TrimSpace text in
          if text = [] then (ToolResultError ''Parameter 'text' cannot be empty'', [])
          else
            let args = [];
                allArgs = GetArguments request;
                args = add_voice allArgs args
            in
            case add_rate allArgs args of
              Inl msg \<Rightarrow> (ToolResultError msg, [])
            | Inr args \<Rightarrow>
                let args = args @ [text];
                    res = run sayCommand args
                in
                (case Err res of
                   Some err \<Rightarrow> ToolResultError (speak_failure_main ctxErr err (Output res))
                 | None \<Rightarrow> ToolResultText (''Successfully spoke: '' @ text),
                 [(sayCommand, args)]))"

text \<open>
  \<open>json.MarshalIndent(v, prefix, indent)\<close> on a value built from structs, slices and
  strings. \<open>json\<close> is the shape \<open>encoding/json\<close> walks: a struct is an object of its
  tagged fields in declaration order, a non-nil slice an array. The encoder of string
  values (quoting and escaping) is the parameter \<open>enc\<close>; field names are written between
  double quotes. Each element starts on a new line, indented once per level of nesting; an
  empty array or object stays closed on one line. For such values the call returns no error.
\<close>

datatype json = JString string | JArray "json list" | JObject "(string \<times> json) list"

fun Join :: "string list \<Rightarrow> string \<Rightarrow> string" where
  "Join [] sep = []"
| "Join [x] sep = x"
| "Join (x # y # ys) sep = x @ sep @ Join (y # ys) sep"

definition newline :: "string \<Rightarrow> string \<Rightarrow> nat \<Rightarrow> string" where
  "newline pfx indent depth = CHR 0x0A # pfx @ concat (replicate depth indent)"

fun indent_value :: "(string \<Rightarrow> string) \<Rightarrow> string \<Rightarrow> string \<Rightarrow> nat \<Rightarrow> json \<Rightarrow> string" where
  "indent_value enc pfx indent depth (JString s) = enc s"
| "indent_value enc pfx indent depth (JArray vs) =
     (if vs = [] then ''[]''
      else ''['' @ newline pfx indent (Suc depth) @
           Join (map (indent_value enc pfx indent (Suc depth)) vs)
                ('','' @ newline pfx indent (Suc depth)) @
           newline pfx indent depth @ '']'')"
| "indent_value enc pfx indent depth (JObject fs) =
     (if fs = [] then ''{}''
      else ''{'' @ newline pfx indent (Suc depth) @
           Join (map (\<lambda>(k, v). [CHR 0x22] @ k @ [CHR 0x22] @ '': '' @
                                indent_value enc pfx indent (Suc depth) v) fs)
                ('','' @ newline pfx indent (Suc depth)) @
           newline pfx indent depth @ ''}'')"

definition MarshalIndent :: "(string \<Rightarrow> string) \<Rightarrow> json \<Rightarrow> string \<Rightarrow> string \<Rightarrow> string + string" where
  "MarshalIndent enc v pfx indent = Inr (indent_value enc pfx indent 0 v)"

text \<open>The struct \<open>Voice\<close> and the response wrapper, by their \<open>json\<close> tags.\<close>

definition Voice_json :: "Voice \<Rightarrow> json" where
  "Voice_json v =
     JObject [(''name'', JString (Name v)), (''locale'', JString (Locale v)),
              (''description'', JString (Description v))]"

definition VoicesResponse_json :: "Voice list \<Rightarrow> json" where
  "VoicesResponse_json voices = JObject [(''voices'', JArray (map Voice_json voices))]"

definition handleVoices_main ::
  "(string \<Rightarrow> string) \<Rightarrow> ctx_err option \<Rightarrow> runner \<Rightarrow> CallToolRequest \<Rightarrow>
     CallToolResult \<times> (string \<times> string list) list" where
  "handleVoices_main enc ctxErr run request =
     (let res = run sayCommand [''-v'', ''?''];
          output = Output res
      in
      (case Err res of
         Some err \<Rightarrow>
           if errors_Is ctxErr Canceled \<or> errors_Is ctxErr DeadlineExceeded
           then ToolResultError (''Voice listing cancelled: '' @ Sprintf_v ctxErr)
           else
             let errMsg = ''Failed to retrieve voice list: '' @ err;
                 errMsg = (if 0 < length output
                           then errMsg @ [CHR 0x0A] @ ''Output: '' @ output
                           else errMsg)
             in ToolResultError errMsg
       | None \<Rightarrow>
           let voices = parseVoices output in
           (case MarshalIndent enc (VoicesResponse_json voices) [] ''  '' of
              Inl err \<Rightarrow> ToolResultError (''Failed to format voice list: '' @ err)
            | Inr jsonData \<Rightarrow> ToolResultText jsonData),
       [(sayCommand, [''-v'', ''?''])]))"

section \<open>The handlers of \<open>src/unnamed/part_000\<close>\<close>

text \<open>
  \<open>strings.ToLower\<close> on ASCII text: the letters A to Z move to a to z. (Go also maps
  letters beyond ASCII; the handlers pass ASCII literals only.)
\<close>

definition ToLower :: "string \<Rightarrow> string" where
  "ToLower s =
     map (\<lambda>c. if 65 \<le> (of_char c :: nat) \<and> (of_char c :: nat) \<le> 90
              then char_of (of_char c + 32 :: nat) else c) s"

definition formatCommandError ::
  "ctx_err option \<Rightarrow> string \<Rightarrow> string \<Rightarrow> string \<Rightarrow> string" where
  "formatCommandError ctxErr action err output =
     (if errors_Is ctxErr Canceled \<or> errors_Is ctxErr DeadlineExceeded
      then action @ '' cancelled: '' @ Sprintf_v ctxErr
      else
        let errMsg = ''Failed to '' @ ToLower action @ '': '' @ err;
            errMsg = (if 0 < length output
                      then errMsg @ [CHR 0x0A] @ ''Output: '' @ output
                      else errMsg);
            errMsg = (if Contains err ''permission denied''
                      then errMsg @ permissionGuidance else errMsg)
        in errMsg)"

definition handleSpeak_part ::
  "ctx_err option \<Rightarrow> runner \<Rightarrow> CallToolRequest \<Rightarrow>
     CallToolResult \<times> (string \<times> string list) list" where
  "handleSpeak_part ctxErr run request =
     (case RequireString request ''text'' of
        Inl err \<Rightarrow> (ToolResultError (''Invalid parameter 'text': '' @ err), [])
      | Inr text \<Rightarrow>
          let text = TrimSpace text in
          if text = [] then (ToolResultError ''Parameter 'text' cannot be empty'', [])
          else
            let args = [];
                allArgs = GetArguments request;
                args = add_voice allArgs args
            in
            case add_rate allArgs args of
              Inl msg \<Rightarrow> (ToolResultError msg, [])
            | Inr args \<Rightarrow>
                let args = args @ [text];
                    res = run sayCommand args
                in
                (case Err res of
                   Some err \<Rightarrow>
                     ToolResultError
                       (formatCommandError ctxErr ''Execute speech synthesis'' err (Output res))
                 | None \<Rightarrow> ToolResultText (''Successfully spoke: '' @ text),
                 [(sayCommand, args)]))"

definition handleVoices_part ::
  "(string \<Rightarrow> string) \<Rightarrow> ctx_err option \<Rightarrow> runner \<Rightarrow> CallToolRequest \<Rightarrow>
     CallToolResult \<times> (string \<times> string list) list" where
  "handleVoices_part enc ctxErr run request =
     (let res = run sayCommand [''-v'', ''?''];
          output = Output res
      in
      (case Err res of
         Some err \<Rightarrow>
           ToolResultError (formatCommandError ctxErr ''Retrieve voice list'' err output)
       | None \<Rightarrow>
           let voices = parseVoices output in
           (case MarshalIndent enc (VoicesResponse_json voices) [] ''  '' of
              Inl err \<Rightarrow> ToolResultError (''Failed to format voice list: '' @ err)
            | Inr jsonData \<Rightarrow> ToolResultText jsonData),
       [(sayCommand, [''-v'', ''?''])]))"

section \<open>The voice document of the specification\<close>

text \<open>
  The payload as the specification words it: one object with the single field
  \<open>voices\<close>, an array of objects with the fields \<open>name\<close>, \<open>locale\<close> and
  \<open>description\<close>, written line by line with two spaces of indentation per level. It is
  compared below with what \<open>MarshalIndent\<close> returns.
\<close>

definition voice_entry :: "(string \<Rightarrow> string) \<Rightarrow> Voice \<Rightarrow> string" where
  "voice_entry enc v =
     ''    {'' @ [CHR 0x0A] @
     ''      '' @ [CHR 0x22] @ ''name'' @ [CHR 0x22] @ '': '' @ enc (Name v) @ '','' @ [CHR 0x0A] @
     ''      '' @ [CHR 0x22] @ ''locale'' @ [CHR 0x22] @ '': '' @ enc (Locale v) @ '','' @ [CHR 0x0A] @
     ''      '' @ [CHR 0x22] @ ''description'' @ [CHR 0x22] @ '': '' @ enc (Description v) @ [CHR 0x0A] @
     ''    }''"

definition voices_document :: "(string \<Rightarrow> string) \<Rightarrow> Voice list \<Rightarrow> string" where
  "voices_document enc voices =
     (if voices = [] then ''{'' @ [CHR 0x0A] @ ''  '' @ [CHR 0x22] @ ''voices'' @ [CHR 0x22] @ '': []'' @ [CHR 0x0A] @ ''}''
      else ''{'' @ [CHR 0x0A] @
           ''  '' @ [CHR 0x22] @ ''voices'' @ [CHR 0x22] @ '': ['' @ [CHR 0x0A] @
           Join (map (voice_entry enc) voices) ('','' @ [CHR 0x0A]) @ [CHR 0x0A] @
           ''  ]'' @ [CHR 0x0A] @
           ''}'')"

section \<open>The string encoder of \<open>encoding/json\<close>\<close>

text \<open>
  \<open>json.MarshalIndent\<close> writes a string value with \<open>appendString\<close>, HTML escaping on.
  A byte below \<open>0x80\<close> is copied when it is in \<open>htmlSafeSet\<close>: printable or \<open>DEL\<close>, and
  none of the double quote, \<open>&\<close>, \<open><\<close>, \<open>>\<close> and the backslash. Otherwise it is escaped:
  the quote and the backslash with a backslash before them, backspace, form feed, newline,
  carriage return and tab by a backslash and their letter, any other by a backslash, the
  letter u, two zeros and two hexadecimal digits. From a byte of \<open>0x80\<close> or more
  \<open>utf8.DecodeRuneInString\<close> reads one rune: where the bytes are no valid encoding the
  one byte becomes the six characters that escape U+FFFD, the runes U+2028 and U+2029
  become their six-character escapes, and every other rune is copied.
\<close>

definition byte_in :: "nat \<Rightarrow> nat \<Rightarrow> char \<Rightarrow> bool" where
  "byte_in lo hi c = (lo \<le> of_char c \<and> of_char c \<le> hi)"

text \<open>The byte sequences that encode one rune in UTF-8, as \<open>unicode/utf8\<close> accepts them.\<close>

fun utf8_rune :: "string \<Rightarrow> bool" where
  "utf8_rune [a] = byte_in 0x00 0x7F a"
| "utf8_rune [a, b] = (byte_in 0xC2 0xDF a \<and> byte_in 0x80 0xBF b)"
| "utf8_rune [a, b, c] =
     ((byte_in 0xE0 0xE0 a \<and> byte_in 0xA0 0xBF b \<or>
       byte_in 0xE1 0xEC a \<and> byte_in 0x80 0xBF b \<or>
       byte_in 0xED 0xED a \<and> byte_in 0x80 0x9F b \<or>
       byte_in 0xEE 0xEF a \<and> byte_in 0x80 0xBF b) \<and>
      byte_in 0x80 0xBF c)"
| "utf8_rune [a, b, c, d] =
     ((byte_in 0xF0 0xF0 a \<and> byte_in 0x90 0xBF b \<or>
       byte_in 0xF1 0xF3 a \<and> byte_in 0x80 0xBF b \<or>
       byte_in 0xF4 0xF4 a \<and> byte_in 0x80 0x8F b) \<and>
      byte_in 0x80 0xBF c \<and> byte_in 0x80 0xBF d)"
| "utf8_rune s = False"

text \<open>The width of the rune at the start of \<open>s\<close>; \<open>0\<close> stands for \<open>RuneError\<close> of width 1.\<close>

definition rune_size :: "string \<Rightarrow> nat" where
  "rune_size s =
     (if utf8_rune (take 1 s) then 1 else if utf8_rune (take 2 s) then 2
      else if utf8_rune (take 3 s) then 3 else if utf8_rune (take 4 s) then 4 else 0)"

definition hex :: string where
  "hex = ''0123456789abcdef''"

definition htmlSafe :: "char \<Rightarrow> bool" where
  "htmlSafe b =
     (byte_in 0x20 0x7F b \<and> b \<notin> {CHR 0x22, CHR 0x26, CHR 0x3C, CHR 0x3E, CHR 0x5C})"

definition escape_ascii :: "char \<Rightarrow> string" where
  "escape_ascii b =
     (if htmlSafe b then [b]
      else if b = CHR 0x5C \<or> b = CHR 0x22 then [CHR 0x5C, b]
      else if b = CHR 0x08 then [CHR 0x5C, CHR ''b'']
      else if b = CHR 0x0C then [CHR 0x5C, CHR ''f'']
      else if b = CHR 0x0A then [CHR 0x5C, CHR ''n'']
      else if b = CHR 0x0D then [CHR 0x5C, CHR ''r'']
      else if b = CHR 0x09 then [CHR 0x5C, CHR ''t'']
      else [CHR 0x5C, CHR ''u'', CHR ''0'', CHR ''0'',
            hex ! (of_char b div 16), hex ! (of_char b mod 16)])"

fun encode_bytes :: "string \<Rightarrow> string" where
  "encode_bytes [] = []"
| "encode_bytes (b # bs) =
     (if byte_in 0x00 0x7F b then escape_ascii b @ encode_bytes bs
      else
        let n = rune_size (b # bs) in
        if n = 0 then [CHR 0x5C] @ ''ufffd'' @ encode_bytes bs
        else if take n (b # bs) = [CHR 0xE2, CHR 0x80, CHR 0xA8]
        then [CHR 0x5C] @ ''u2028'' @ encode_bytes (drop (n - 1) bs)
        else if take n (b # bs) = [CHR 0xE2, CHR 0x80, CHR 0xA9]
        then [CHR 0x5C] @ ''u2029'' @ encode_bytes (drop (n - 1) bs)
        else take n (b # bs) @ encode_bytes (drop (n - 1) bs))"

definition encodeString :: "string \<Rightarrow> string" where
  "encodeString s = [CHR 0x22] @ encode_bytes s @ [CHR 0x22]"

section \<open>JSON texts\<close>

text \<open>
  The grammar of RFC 8259 for the values built from strings, arrays and objects, over
  bytes. White space is space, tab, line feed and carriage return. Between its quotes a
  string holds unescaped runes (any rune from U+0020 on other than the quote and the
  backslash, in UTF-8), the two-character escapes, and the escape of a backslash, the letter u and four
  hexadecimal digits. A value may have white space on both sides; the elements of an array and the
  members of an object are separated by commas, a member being a string, a colon and a
  value.
\<close>

definition json_ws :: "string \<Rightarrow> bool" where
  "json_ws s = (set s \<subseteq> {CHR 0x20, CHR 0x09, CHR 0x0A, CHR 0x0D})"

definition hex_digit :: "char \<Rightarrow> bool" where
  "hex_digit c = (c \<in> set ''0123456789abcdefABCDEF'')"

fun json_unescaped :: "string \<Rightarrow> bool" where
  "json_unescaped [c] = (byte_in 0x20 0x7F c \<and> c \<noteq> CHR 0x22 \<and> c \<noteq> CHR 0x5C)"
| "json_unescaped r = utf8_rune r"

inductive json_chars :: "string \<Rightarrow> bool" where
  chars_end: "json_chars []"
| chars_unescaped: "json_unescaped r \<Longrightarrow> json_chars cs \<Longrightarrow> json_chars (r @ cs)"
| chars_escape:
    "e \<in> set [CHR 0x22, CHR 0x5C, CHR 0x2F, CHR ''b'', CHR ''f'', CHR ''n'', CHR ''r'', CHR ''t''] \<Longrightarrow>
     json_chars cs \<Longrightarrow> json_chars (CHR 0x5C # e # cs)"
| chars_unicode:
    "hex_digit a \<Longrightarrow> hex_digit b \<Longrightarrow> hex_digit c \<Longrightarrow> hex_digit d \<Longrightarrow>
     json_chars cs \<Longrightarrow> json_chars (CHR 0x5C # CHR ''u'' # a # b # c # d # cs)"

definition json_string :: "string \<Rightarrow> bool" where
  "json_string s = (\<exists>cs. s = [CHR 0x22] @ cs @ [CHR 0x22] \<and> json_chars cs)"

inductive json_value :: "string \<Rightarrow> bool"
  and json_elements :: "string \<Rightarrow> bool"
  and json_members :: "string \<Rightarrow> bool" where
  value_string: "json_ws a \<Longrightarrow> json_string s \<Longrightarrow> json_ws b \<Longrightarrow> json_value (a @ s @ b)"
| value_empty_array:
    "json_ws a \<Longrightarrow> json_ws m \<Longrightarrow> json_ws b \<Longrightarrow> json_value (a @ ''['' @ m @ '']'' @ b)"
| value_array:
    "json_ws a \<Longrightarrow> json_elements es \<Longrightarrow> json_ws b \<Longrightarrow> json_value (a @ ''['' @ es @ '']'' @ b)"
| value_empty_object:
    "json_ws a \<Longrightarrow> json_ws m \<Longrightarrow> json_ws b \<Longrightarrow> json_value (a @ ''{'' @ m @ ''}'' @ b)"
| value_object:
    "json_ws a \<Longrightarrow> json_members ms \<Longrightarrow> json_ws b \<Longrightarrow> json_value (a @ ''{'' @ ms @ ''}'' @ b)"
| elements_last: "json_value v \<Longrightarrow> json_elements v"
| elements_more: "json_value v \<Longrightarrow> json_elements es \<Longrightarrow> json_elements (v @ '','' @ es)"
| members_last:
    "json_ws a \<Longrightarrow> json_string k \<Longrightarrow> json_ws b \<Longrightarrow> json_value v \<Longrightarrow>
     json_members (a @ k @ b @ '':'' @ v)"
| members_more:
    "json_ws a \<Longrightarrow> json_string k \<Longrightarrow> json_ws b \<Longrightarrow> json_value v \<Longrightarrow> json_members ms \<Longrightarrow>
     json_members (a @ k @ b @ '':'' @ v @ '','' @ ms)"

section \<open>Message classes and example environments\<close>

text \<open>
  An execution-failure message starts with \<open>Failed to\<close>; a validation message is one of
  the three texts \<open>handleSpeak\<close> returns before it builds a command.
\<close>

definition execution_failure_class :: "CallToolResult \<Rightarrow> bool" where
  "execution_failure_class r =
     (case r of ToolResultError m \<Rightarrow> prefix ''Failed to '' m | ToolResultText m \<Rightarrow> False)"

definition validation_error :: "CallToolResult \<Rightarrow> bool" where
  "validation_error r =
     (case r of
        ToolResultError m \<Rightarrow>
          prefix ''Invalid parameter 'text': '' m \<or>
          m = ''Parameter 'text' cannot be empty'' \<or>
          (prefix ''Rate '' m \<and>
           suffix '' is outside acceptable range (90-500 words per minute)'' m)
      | ToolResultText m \<Rightarrow> False)"

text \<open>
  The base error message of an execution failure: what failed, the underlying error and,
  when some output was captured, that output.
\<close>

definition base_error :: "string \<Rightarrow> string \<Rightarrow> string \<Rightarrow> string" where
  "base_error what err output =
     ''Failed to '' @ what @ '': '' @ err @
     (if output = [] then [] else [CHR 0x0A] @ ''Output: '' @ output)"

text \<open>Concrete environments and requests for the examples.\<close>

definition run_fails :: "string \<Rightarrow> string \<Rightarrow> runner" where
  "run_fails out err cmd args = \<lparr>Output = out, Err = Some err\<rparr>"

definition run_ok :: "string \<Rightarrow> runner" where
  "run_ok out cmd args = \<lparr>Output = out, Err = None\<rparr>"

definition request_of :: "(string \<times> any) list \<Rightarrow> CallToolRequest" where
  "request_of kvs = map_of kvs"

text \<open>Five catalog lines: three of the expected shape, a blank one and a header.\<close>

definition catalog_sample :: "string list" where
  "catalog_sample =
     [''Albert    en_US    # Hello! My name is Albert.'',
      [],
      ''Bad News  en_US  # Sorry'',
      ''Name  Locale  Sample'',
      ''Zoe  en_GB # hi'']"


definition quoted :: "string \<Rightarrow> string" where
  "quoted s = [CHR 0x22] @ s @ [CHR 0x22]"

text \<open>
  A listing of three lines, the second a header, the third with a double quote and
  \<open><\<close> in its description, and the document expected for it.
\<close>

definition voices_sample :: "string list" where
  "voices_sample = [''Zoe en_GB # hi'', ''Name Locale'', ''Al en_US # a'' @ [CHR 0x22] @ ''<b'']"

definition voices_sample_document :: string where
  "voices_sample_document =
     ''{'' @ [CHR 0x0A] @
     ''  '' @ quoted ''voices'' @ '': ['' @ [CHR 0x0A] @
     ''    {'' @ [CHR 0x0A] @
     ''      '' @ quoted ''name'' @ '': '' @ quoted ''Zoe'' @ '','' @ [CHR 0x0A] @
     ''      '' @ quoted ''locale'' @ '': '' @ quoted ''en_GB'' @ '','' @ [CHR 0x0A] @
     ''      '' @ quoted ''description'' @ '': '' @ quoted ''hi'' @ [CHR 0x0A] @
     ''    },'' @ [CHR 0x0A] @
     ''    {'' @ [CHR 0x0A] @
     ''      '' @ quoted ''name'' @ '': '' @ quoted ''Al'' @ '','' @ [CHR 0x0A] @
     ''      '' @ quoted ''locale'' @ '': '' @ quoted ''en_US'' @ '','' @ [CHR 0x0A] @
     ''      '' @ quoted ''description'' @ '': '' @
                 quoted (''a'' @ [CHR 0x5C, CHR 0x22] @ [CHR 0x5C] @ ''u003cb'') @ [CHR 0x0A] @
     ''    }'' @ [CHR 0x0A] @
     ''  ]'' @ [CHR 0x0A] @
     ''}''"

section \<open>Cancellation and failure messages\<close>

text \<open>
  Claim C4. Whenever the context is cancelled or past its deadline and the command the
  handler started returns an error, the result is the cancellation message (the action,
  \<open>cancelled:\<close>, and the context's error text), whatever error and output the process
  reported, and it is no execution-failure message. This holds for both handlers of both
  source files and for \<open>formatCommandError\<close>.
\<close>

theorem cancellation_takes_precedence:
  assumes "ctxErr = Some Canceled \<or> ctxErr = Some DeadlineExceeded"
  shows
    "(\<forall>args err.
        snd (handleSpeak_main ctxErr run request) = [(sayCommand, args)] \<and>
        Err (run sayCommand args) = Some err \<longrightarrow>
          fst (handleSpeak_main ctxErr run request) =
            ToolResultError (''Speech synthesis cancelled: '' @ Sprintf_v ctxErr) \<and>
          \<not> execution_failure_class (fst (handleSpeak_main ctxErr run request))) \<and>
     (\<forall>args err.
        snd (handleSpeak_part ctxErr run request) = [(sayCommand, args)] \<and>
        Err (run sayCommand args) = Some err \<longrightarrow>
          fst (handleSpeak_part ctxErr run request) =
            ToolResultError (''Execute speech synthesis cancelled: '' @ Sprintf_v ctxErr) \<and>
          \<not> execution_failure_class (fst (handleSpeak_part ctxErr run request))) \<and>
     (\<forall>err.
        Err (run sayCommand [''-v'', ''?'']) = Some err \<longrightarrow>
          fst (handleVoices_main enc ctxErr run request) =
            ToolResultError (''Voice listing cancelled: '' @ Sprintf_v ctxErr) \<and>
          \<not> execution_failure_class (fst (handleVoices_main enc ctxErr run request)) \<and>
          fst (handleVoices_part enc ctxErr run request) =
            ToolResultError (''Retrieve voice list cancelled: '' @ Sprintf_v ctxErr) \<and>
          \<not> execution_failure_class (fst (handleVoices_part enc ctxErr run request))) \<and>
     (\<forall>action err output.
        formatCommandError ctxErr action err output =
          action @ '' cancelled: '' @ Sprintf_v ctxErr) \<and>
     (Sprintf_v ctxErr = ''context canceled'' \<or>
      Sprintf_v ctxErr = ''context deadline exceeded'')"
proof (intro conjI)
  show "\<forall>args err.
        snd (handleSpeak_main ctxErr run request) = [(sayCommand, args)] \<and>
        Err (run sayCommand args) = Some err \<longrightarrow>
          fst (handleSpeak_main ctxErr run request) =
            ToolResultError (''Speech synthesis cancelled: '' @ Sprintf_v ctxErr) \<and>
          \<not> execution_failure_class (fst (handleSpeak_main ctxErr run request))"
    using assms
    by (auto simp: handleSpeak_main_def speak_failure_main_def Let_def errors_Is_def
                   execution_failure_class_def
             split: sum.splits option.splits if_splits)
  show "\<forall>args err.
        snd (handleSpeak_part ctxErr run request) = [(sayCommand, args)] \<and>
        Err (run sayCommand args) = Some err \<longrightarrow>
          fst (handleSpeak_part ctxErr run request) =
            ToolResultError (''Execute speech synthesis cancelled: '' @ Sprintf_v ctxErr) \<and>
          \<not> execution_failure_class (fst (handleSpeak_part ctxErr run request))"
    using assms
    by (auto simp: handleSpeak_part_def formatCommandError_def Let_def errors_Is_def
                   execution_failure_class_def
             split: sum.splits option.splits if_splits)
  show "\<forall>err.
        Err (run sayCommand [''-v'', ''?'']) = Some err \<longrightarrow>
          fst (handleVoices_main enc ctxErr run request) =
            ToolResultError (''Voice listing cancelled: '' @ Sprintf_v ctxErr) \<and>
          \<not> execution_failure_class (fst (handleVoices_main enc ctxErr run request)) \<and>
          fst (handleVoices_part enc ctxErr run request) =
            ToolResultError (''Retrieve voice list cancelled: '' @ Sprintf_v ctxErr) \<and>
          \<not> execution_failure_class (fst (handleVoices_part enc ctxErr run request))"
    using assms
    by (auto simp: handleVoices_main_def handleVoices_part_def formatCommandError_def Let_def
                   errors_Is_def execution_failure_class_def)
  show "\<forall>action err output.
        formatCommandError ctxErr action err output =
          action @ '' cancelled: '' @ Sprintf_v ctxErr"
    using assms by (auto simp: formatCommandError_def errors_Is_def)
  show "Sprintf_v ctxErr = ''context canceled'' \<or>
        Sprintf_v ctxErr = ''context deadline exceeded''"
    using assms by auto
qed

theorem cancellation_takes_precedence_witness:
  "fst (handleSpeak_main (Some Canceled) (run_fails ''partial'' ''signal: killed'')
          (request_of [(''text'', AString ''Hello'')])) =
     ToolResultError ''Speech synthesis cancelled: context canceled'' \<and>
   fst (handleVoices_part quoted (Some DeadlineExceeded)
          (run_fails ''partial'' ''signal: killed'') (request_of [])) =
     ToolResultError ''Retrieve voice list cancelled: context deadline exceeded''"
proof -
  have a: "Some Canceled = Some Canceled \<or> Some Canceled = Some DeadlineExceeded"
    by simp
  have b: "Some DeadlineExceeded = Some Canceled \<or>
           Some DeadlineExceeded = Some DeadlineExceeded"
    by simp
  have h1: "snd (handleSpeak_main (Some Canceled) (run_fails ''partial'' ''signal: killed'')
              (request_of [(''text'', AString ''Hello'')])) = [(sayCommand, [''Hello''])]"
    by code_simp
  have h2: "\<And>args. Err (run_fails ''partial'' ''signal: killed'' sayCommand args) =
              Some ''signal: killed''"
    by (simp add: run_fails_def)
  from cancellation_takes_precedence[OF a, where run = "run_fails ''partial'' ''signal: killed''"
      and request = "request_of [(''text'', AString ''Hello'')]"] h1 h2
  have 1: "fst (handleSpeak_main (Some Canceled) (run_fails ''partial'' ''signal: killed'')
          (request_of [(''text'', AString ''Hello'')])) =
     ToolResultError ''Speech synthesis cancelled: context canceled''"
    by simp
  from cancellation_takes_precedence[OF b, where run = "run_fails ''partial'' ''signal: killed''"
      and enc = quoted and request = "request_of []"] h2
  have 2: "fst (handleVoices_part quoted (Some DeadlineExceeded)
          (run_fails ''partial'' ''signal: killed'') (request_of [])) =
     ToolResultError ''Retrieve voice list cancelled: context deadline exceeded''"
    by simp
  from 1 2 show ?thesis by simp
qed

section \<open>Facts about trimming\<close>

lemma space_runes_nonempty: "w \<in> set space_runes \<Longrightarrow> w \<noteq> []"
  by (auto simp: space_runes_def)

lemma find_space_prefix:
  assumes "find (\<lambda>w. prefix w s) space_runes = Some w"
  shows "w \<in> set space_runes" "prefix w s" "w \<noteq> []"
proof -
  from assms obtain i where "i < length space_runes" "w = space_runes ! i" "prefix w s"
    by (auto simp: find_Some_iff)
  then show "w \<in> set space_runes" "prefix w s" by auto
  then show "w \<noteq> []" by (simp add: space_runes_nonempty)
qed

lemma find_space_suffix:
  assumes "find (\<lambda>w. suffix w s) space_runes = Some w"
  shows "w \<in> set space_runes" "suffix w s" "w \<noteq> []"
proof -
  from assms obtain i where "i < length space_runes" "w = space_runes ! i" "suffix w s"
    by (auto simp: find_Some_iff)
  then show "w \<in> set space_runes" "suffix w s" by auto
  then show "w \<noteq> []" by (simp add: space_runes_nonempty)
qed

lemma space_runes_prefix_free_aux:
  "\<forall>w\<in>set space_runes. \<forall>w'\<in>set space_runes. prefix w w' \<longrightarrow> w = w'"
  by code_simp

lemma space_runes_prefix_free:
  "w \<in> set space_runes \<Longrightarrow> w' \<in> set space_runes \<Longrightarrow> prefix w w' \<Longrightarrow> w = w'"
  using space_runes_prefix_free_aux by blast

lemma TrimLeft_space_step:
  assumes "w \<in> set space_runes"
  shows "TrimLeft (w @ s) = TrimLeft s"
proof -
  have "find (\<lambda>w'. prefix w' (w @ s)) space_runes \<noteq> None"
    using assms by (auto simp: find_None_iff)
  then obtain w' where f: "find (\<lambda>w'. prefix w' (w @ s)) space_runes = Some w'"
    by auto
  from find_space_prefix[OF f] have m: "w' \<in> set space_runes" and p: "prefix w' (w @ s)"
    by auto
  have "prefix w (w @ s)" by simp
  with p have "prefix w' w \<or> prefix w w'" by (rule prefix_same_cases)
  with m assms have "w' = w" by (auto dest: space_runes_prefix_free)
  with f show ?thesis by (subst TrimLeft.simps) simp
qed

lemma TrimLeft_Nil: "TrimLeft [] = []"
proof (cases "find (\<lambda>w. prefix w []) space_runes")
  case None
  then show ?thesis by (subst TrimLeft.simps) simp
next
  case (Some w)
  from find_space_prefix[OF Some] show ?thesis by simp
qed

lemma TrimRight_Nil: "TrimRight [] = []"
proof (cases "find (\<lambda>w. suffix w []) space_runes")
  case None
  then show ?thesis by (subst TrimRight.simps) simp
next
  case (Some w)
  from find_space_suffix[OF Some] show ?thesis by simp
qed

lemma TrimLeft_concat_spaces: "set ws \<subseteq> set space_runes \<Longrightarrow> TrimLeft (concat ws) = []"
  by (induction ws) (auto simp: TrimLeft_Nil TrimLeft_space_step)

lemma TrimSpace_concat_spaces: "set ws \<subseteq> set space_runes \<Longrightarrow> TrimSpace (concat ws) = []"
  by (simp add: TrimSpace_def TrimLeft_concat_spaces TrimRight_Nil)

section \<open>The speak handlers, case by case\<close>

lemma RequireString_Inr: "RequireString request key = Inr t \<longleftrightarrow> request key = Some (AString t)"
  by (auto simp: RequireString_def GetArguments_def split: option.splits any.splits)

lemma RequireString_Inl:
  "(\<forall>s. request key \<noteq> Some (AString s)) \<Longrightarrow> \<exists>e. RequireString request key = Inl e"
  by (cases "RequireString request key") (auto simp: RequireString_Inr)

lemma handleSpeak_main_no_text:
  assumes "RequireString request ''text'' = Inl e"
  shows "handleSpeak_main ctxErr run request =
           (ToolResultError (''Invalid parameter 'text': '' @ e), [])"
  using assms by (simp add: handleSpeak_main_def)

lemma handleSpeak_part_no_text:
  assumes "RequireString request ''text'' = Inl e"
  shows "handleSpeak_part ctxErr run request =
           (ToolResultError (''Invalid parameter 'text': '' @ e), [])"
  using assms by (simp add: handleSpeak_part_def)

lemma handleSpeak_main_blank:
  assumes "request ''text'' = Some (AString t)" "TrimSpace t = []"
  shows "handleSpeak_main ctxErr run request =
           (ToolResultError ''Parameter 'text' cannot be empty'', [])"
  using assms by (simp add: handleSpeak_main_def RequireString_Inr[THEN iffD2])

lemma handleSpeak_part_blank:
  assumes "request ''text'' = Some (AString t)" "TrimSpace t = []"
  shows "handleSpeak_part ctxErr run request =
           (ToolResultError ''Parameter 'text' cannot be empty'', [])"
  using assms by (simp add: handleSpeak_part_def RequireString_Inr[THEN iffD2])

lemma handleSpeak_main_text:
  assumes "request ''text'' = Some (AString t)" "TrimSpace t \<noteq> []"
  shows "handleSpeak_main ctxErr run request =
           (case add_rate request (add_voice request []) of
              Inl msg \<Rightarrow> (ToolResultError msg, [])
            | Inr args \<Rightarrow>
                (case Err (run sayCommand (args @ [TrimSpace t])) of
                   Some err \<Rightarrow>
                     ToolResultError
                       (speak_failure_main ctxErr err
                          (Output (run sayCommand (args @ [TrimSpace t]))))
                 | None \<Rightarrow> ToolResultText (''Successfully spoke: '' @ TrimSpace t),
                 [(sayCommand, args @ [TrimSpace t])]))"
  using assms
  by (simp add: handleSpeak_main_def RequireString_Inr[THEN iffD2] GetArguments_def Let_def
           split: sum.split)

lemma handleSpeak_part_text:
  assumes "request ''text'' = Some (AString t)" "TrimSpace t \<noteq> []"
  shows "handleSpeak_part ctxErr run request =
           (case add_rate request (add_voice request []) of
              Inl msg \<Rightarrow> (ToolResultError msg, [])
            | Inr args \<Rightarrow>
                (case Err (run sayCommand (args @ [TrimSpace t])) of
                   Some err \<Rightarrow>
                     ToolResultError
                       (formatCommandError ctxErr ''Execute speech synthesis'' err
                          (Output (run sayCommand (args @ [TrimSpace t]))))
                 | None \<Rightarrow> ToolResultText (''Successfully spoke: '' @ TrimSpace t),
                 [(sayCommand, args @ [TrimSpace t])]))"
  using assms
  by (simp add: handleSpeak_part_def RequireString_Inr[THEN iffD2] GetArguments_def Let_def
           split: sum.split)

lemma add_rate_out_of_range:
  assumes "request ''rate'' = Some (AFloat64 r)" "f64_gt r 0" "f64_lt r 90 \<or> f64_gt r 500"
  shows "add_rate request args =
           Inl (''Rate '' @ Sprintf_f0 r @
                '' is outside acceptable range (90-500 words per minute)'')"
  using assms by (auto simp: add_rate_def)

section \<open>Validation and argument building\<close>

text \<open>
  Claim C2. A speak request fails validation when its \<open>text\<close> is missing or no string,
  when the text is empty after trimming, or when its \<open>rate\<close> is a number greater than 0
  that is below 90 or above 500. Both versions of \<open>handleSpeak\<close> then return a
  validation error and start no process. In particular a text made only of white space
  gives the error \<open>Parameter 'text' cannot be empty\<close> and no process.
\<close>

theorem validation_failure_starts_no_process:
  "((\<forall>s. request ''text'' \<noteq> Some (AString s)) \<or>
    (\<exists>s. request ''text'' = Some (AString s) \<and> TrimSpace s = []) \<or>
    (\<exists>r. request ''rate'' = Some (AFloat64 r) \<and> f64_gt r 0 \<and> (f64_lt r 90 \<or> f64_gt r 500))
    \<longrightarrow>
      validation_error (fst (handleSpeak_main ctxErr run request)) \<and>
      snd (handleSpeak_main ctxErr run request) = [] \<and>
      validation_error (fst (handleSpeak_part ctxErr run request)) \<and>
      snd (handleSpeak_part ctxErr run request) = []) \<and>
   (\<forall>ws. set ws \<subseteq> set space_runes \<and> request ''text'' = Some (AString (concat ws)) \<longrightarrow>
      handleSpeak_main ctxErr run request =
        (ToolResultError ''Parameter 'text' cannot be empty'', []) \<and>
      handleSpeak_part ctxErr run request =
        (ToolResultError ''Parameter 'text' cannot be empty'', []))"
proof (intro conjI impI allI)
  assume h: "(\<forall>s. request ''text'' \<noteq> Some (AString s)) \<or>
    (\<exists>s. request ''text'' = Some (AString s) \<and> TrimSpace s = []) \<or>
    (\<exists>r. request ''rate'' = Some (AFloat64 r) \<and> f64_gt r 0 \<and> (f64_lt r 90 \<or> f64_gt r 500))"
  have "\<exists>m. validation_error (ToolResultError m) \<and>
            handleSpeak_main ctxErr run request = (ToolResultError m, []) \<and>
            handleSpeak_part ctxErr run request = (ToolResultError m, [])"
  proof (cases "\<exists>s. request ''text'' = Some (AString s)")
    case False
    then obtain e where e: "RequireString request ''text'' = Inl e"
      using RequireString_Inl[of request "''text''"] by auto
    have "validation_error (ToolResultError (''Invalid parameter 'text': '' @ e))"
      by (simp add: validation_error_def)
    with e show ?thesis
      using handleSpeak_main_no_text handleSpeak_part_no_text by blast
  next
    case True
    then obtain t where t: "request ''text'' = Some (AString t)" by auto
    show ?thesis
    proof (cases "TrimSpace t = []")
      case True
      have "validation_error (ToolResultError ''Parameter 'text' cannot be empty'')"
        by (simp add: validation_error_def)
      with t True show ?thesis
        using handleSpeak_main_blank handleSpeak_part_blank by blast
    next
      case False
      with h t obtain r where r: "request ''rate'' = Some (AFloat64 r)" "f64_gt r 0"
          "f64_lt r 90 \<or> f64_gt r 500"
        by auto
      let ?m = "''Rate '' @ Sprintf_f0 r @
                '' is outside acceptable range (90-500 words per minute)''"
      have v: "validation_error (ToolResultError ?m)"
        by (simp add: validation_error_def suffix_def)
      have "handleSpeak_main ctxErr run request = (ToolResultError ?m, [])"
           "handleSpeak_part ctxErr run request = (ToolResultError ?m, [])"
        using t False r
        by (simp_all add: handleSpeak_main_text handleSpeak_part_text add_rate_out_of_range)
      with v show ?thesis by blast
    qed
  qed
  then show "validation_error (fst (handleSpeak_main ctxErr run request))"
       "snd (handleSpeak_main ctxErr run request) = []"
       "validation_error (fst (handleSpeak_part ctxErr run request))"
       "snd (handleSpeak_part ctxErr run request) = []"
    by auto
next
  fix ws
  assume h: "set ws \<subseteq> set space_runes \<and> request ''text'' = Some (AString (concat ws))"
  then have t: "TrimSpace (concat ws) = []" by (simp add: TrimSpace_concat_spaces)
  show "handleSpeak_main ctxErr run request =
        (ToolResultError ''Parameter 'text' cannot be empty'', [])"
    using h t handleSpeak_main_blank by blast
  show "handleSpeak_part ctxErr run request =
        (ToolResultError ''Parameter 'text' cannot be empty'', [])"
    using h t handleSpeak_part_blank by blast
qed

theorem validation_failure_starts_no_process_witness:
  "f64_gt (Finite 900) 500 \<and>
   validation_error
     (fst (handleSpeak_main None (run_ok [])
        (request_of [(''text'', AString ''Hi''), (''rate'', AFloat64 (Finite 900))]))) \<and>
   snd (handleSpeak_main None (run_ok [])
        (request_of [(''text'', AString ''Hi''), (''rate'', AFloat64 (Finite 900))])) = [] \<and>
   snd (handleSpeak_part None (run_ok [])
        (request_of [(''text'', AString ''Hi''), (''rate'', AFloat64 (Finite 900))])) = [] \<and>
   handleSpeak_main None (run_ok []) (request_of [(''text'', AString ''  '')]) =
     (ToolResultError ''Parameter 'text' cannot be empty'', []) \<and>
   handleSpeak_part None (run_ok []) (request_of [(''text'', AString ''  '')]) =
     (ToolResultError ''Parameter 'text' cannot be empty'', [])"
proof -
  let ?r = "request_of [(''text'', AString ''Hi''), (''rate'', AFloat64 (Finite 900))]"
  let ?b = "request_of [(''text'', AString ''  '')]"
  have h: "(\<forall>s. ?r ''text'' \<noteq> Some (AString s)) \<or>
           (\<exists>s. ?r ''text'' = Some (AString s) \<and> TrimSpace s = []) \<or>
           (\<exists>r. ?r ''rate'' = Some (AFloat64 r) \<and> f64_gt r 0 \<and>
                (f64_lt r 90 \<or> f64_gt r 500))"
    by (simp add: request_of_def)
  have w: "set ['' '', '' ''] \<subseteq> set space_runes \<and>
           ?b ''text'' = Some (AString (concat ['' '', '' '']))"
    by (simp add: request_of_def space_runes_def)
  from validation_failure_starts_no_process[where request = ?r and ctxErr = None
         and run = "run_ok []", THEN conjunct1, THEN mp, OF h]
       validation_failure_starts_no_process[where request = ?b and ctxErr = None
         and run = "run_ok []", THEN conjunct2, THEN spec, THEN mp, OF w]
  show ?thesis by simp
qed

lemma request_upd_other:
  "k \<noteq> k' \<Longrightarrow> RequireString (request(k' := v)) k = RequireString request k"
  by (simp add: RequireString_def GetArguments_def)

lemma handleSpeak_main_cong:
  assumes "RequireString r ''text'' = RequireString r' ''text''"
      and "add_voice r [] = add_voice r' []"
      and "\<And>args. add_rate r args = add_rate r' args"
  shows "handleSpeak_main ctxErr run r = handleSpeak_main ctxErr run r'"
  unfolding handleSpeak_main_def GetArguments_def using assms
  by (simp add: Let_def split: sum.split)

lemma handleSpeak_part_cong:
  assumes "RequireString r ''text'' = RequireString r' ''text''"
      and "add_voice r [] = add_voice r' []"
      and "\<And>args. add_rate r args = add_rate r' args"
  shows "handleSpeak_part ctxErr run r = handleSpeak_part ctxErr run r'"
  unfolding handleSpeak_part_def GetArguments_def using assms
  by (simp add: Let_def split: sum.split)

text \<open>
  Claim C8. When the argument map holds a \<open>voice\<close> entry that is no string, or a
  \<open>rate\<close> entry that is no number (no \<open>float64\<close>), both versions of
  \<open>handleSpeak\<close> return exactly what they return for the request without that entry:
  the same result and the same command line, so no flag is added and no error is raised
  on its account.
\<close>

theorem wrong_typed_optionals_are_ignored:
  "(\<forall>v. request ''voice'' = Some v \<and> (\<forall>s. v \<noteq> AString s) \<longrightarrow>
      handleSpeak_main ctxErr run request =
        handleSpeak_main ctxErr run (request(''voice'' := None)) \<and>
      handleSpeak_part ctxErr run request =
        handleSpeak_part ctxErr run (request(''voice'' := None))) \<and>
   (\<forall>v. request ''rate'' = Some v \<and> (\<forall>r. v \<noteq> AFloat64 r) \<longrightarrow>
      handleSpeak_main ctxErr run request =
        handleSpeak_main ctxErr run (request(''rate'' := None)) \<and>
      handleSpeak_part ctxErr run request =
        handleSpeak_part ctxErr run (request(''rate'' := None)))"
proof (intro conjI impI allI)
  fix v
  assume h: "request ''voice'' = Some v \<and> (\<forall>s. v \<noteq> AString s)"
  have 1: "RequireString (request(''voice'' := None)) ''text'' = RequireString request ''text''"
    by (rule request_upd_other) simp
  have 2: "add_voice (request(''voice'' := None)) args = add_voice request args" for args
    using h by (cases v) (simp_all add: add_voice_def)
  have 3: "add_rate (request(''voice'' := None)) args = add_rate request args" for args
    by (simp add: add_rate_def)
  show "handleSpeak_main ctxErr run request =
        handleSpeak_main ctxErr run (request(''voice'' := None))"
    by (rule handleSpeak_main_cong) (simp_all add: 1 2 3)
  show "handleSpeak_part ctxErr run request =
        handleSpeak_part ctxErr run (request(''voice'' := None))"
    by (rule handleSpeak_part_cong) (simp_all add: 1 2 3)
next
  fix v
  assume h: "request ''rate'' = Some v \<and> (\<forall>r. v \<noteq> AFloat64 r)"
  have 1: "RequireString (request(''rate'' := None)) ''text'' = RequireString request ''text''"
    by (rule request_upd_other) simp
  have 2: "add_voice (request(''rate'' := None)) args = add_voice request args" for args
    by (simp add: add_voice_def)
  have 3: "add_rate (request(''rate'' := None)) args = add_rate request args" for args
    using h by (cases v) (simp_all add: add_rate_def)
  show "handleSpeak_main ctxErr run request =
        handleSpeak_main ctxErr run (request(''rate'' := None))"
    by (rule handleSpeak_main_cong) (simp_all add: 1 2 3)
  show "handleSpeak_part ctxErr run request =
        handleSpeak_part ctxErr run (request(''rate'' := None))"
    by (rule handleSpeak_part_cong) (simp_all add: 1 2 3)
qed

theorem wrong_typed_optionals_are_ignored_witness:
  "handleSpeak_main None (run_ok [])
     (request_of [(''text'', AString ''Hello''), (''voice'', AFloat64 (Finite 7)),
                  (''rate'', AString ''fast'')]) =
     (ToolResultText ''Successfully spoke: Hello'', [(sayCommand, [''Hello''])])"
proof -
  let ?r = "request_of [(''text'', AString ''Hello''), (''voice'', AFloat64 (Finite 7)),
                  (''rate'', AString ''fast'')]"
  let ?r1 = "?r(''voice'' := None)"
  have hv: "?r ''voice'' = Some (AFloat64 (Finite 7)) \<and> (\<forall>s. AFloat64 (Finite 7) \<noteq> AString s)"
    by (simp add: request_of_def)
  have hr: "?r1 ''rate'' = Some (AString ''fast'') \<and> (\<forall>r. AString ''fast'' \<noteq> AFloat64 r)"
    by (simp add: request_of_def)
  have e: "?r1(''rate'' := None) = request_of [(''text'', AString ''Hello'')]"
    by (rule ext) (simp add: request_of_def)
  have c: "handleSpeak_main None (run_ok []) (request_of [(''text'', AString ''Hello'')]) =
     (ToolResultText ''Successfully spoke: Hello'', [(sayCommand, [''Hello''])])"
    by code_simp
  from wrong_typed_optionals_are_ignored[where request = ?r and ctxErr = None
         and run = "run_ok []", THEN conjunct1, THEN spec, THEN mp, OF hv]
       wrong_typed_optionals_are_ignored[where request = ?r1 and ctxErr = None
         and run = "run_ok []", THEN conjunct2, THEN spec, THEN mp, OF hr]
  show ?thesis unfolding e using c by simp
qed

text \<open>
  Claim C1, as the code has it. Take a speak request whose text is a string that is not
  empty after trimming, whose \<open>voice\<close>, when present, is a non-empty string, and whose
  \<open>rate\<close>, when it is a number greater than 0, lies in [90, 500]. Both versions of
  \<open>handleSpeak\<close> start exactly one command, \<open>/usr/bin/say\<close>, and its argument list is:
  \<open>-v\<close> and the voice string when the voice is present; then \<open>-r\<close> and the rate token
  when the rate is a number greater than 0; then the trimmed text as the one last token.
  Nothing else is in the list.
\<close>

theorem built_argument_list:
  assumes hasText: "request ''text'' = Some (AString t)" "TrimSpace t \<noteq> []"
      and voice: "\<forall>v. request ''voice'' = Some v \<longrightarrow> (\<exists>s. v = AString s \<and> s \<noteq> [])"
      and rate: "\<forall>r. request ''rate'' = Some (AFloat64 r) \<and> f64_gt r 0 \<longrightarrow>
                   (\<exists>q. r = Finite q \<and> 90 \<le> q \<and> q \<le> 500)"
  shows "snd (handleSpeak_main ctxErr run request) =
           [(sayCommand,
             (case request ''voice'' of Some (AString s) \<Rightarrow> [''-v'', s] | _ \<Rightarrow> []) @
             (case request ''rate'' of
                Some (AFloat64 r) \<Rightarrow> if f64_gt r 0 then [''-r'', Sprintf_f0 r] else []
              | _ \<Rightarrow> []) @
             [TrimSpace t])] \<and>
         snd (handleSpeak_part ctxErr run request) = snd (handleSpeak_main ctxErr run request)"
proof -
  have v: "add_voice request [] =
             (case request ''voice'' of Some (AString s) \<Rightarrow> [''-v'', s] | _ \<Rightarrow> [])"
    using voice by (auto simp: add_voice_def split: option.splits any.splits)
  have r: "add_rate request args =
             Inr (args @ (case request ''rate'' of
                Some (AFloat64 r) \<Rightarrow> if f64_gt r 0 then [''-r'', Sprintf_f0 r] else []
              | _ \<Rightarrow> []))" for args
    using rate by (auto simp: add_rate_def split: option.splits any.splits)
  show ?thesis
    by (simp add: handleSpeak_main_text[where request = request and t = t, OF hasText]
                  handleSpeak_part_text[where request = request and t = t, OF hasText] v r)
qed

theorem built_argument_list_witness:
  "snd (handleSpeak_main None (run_ok [])
          (request_of [(''text'', AString '' Hello world ''), (''voice'', AString ''Alex''),
                       (''rate'', AFloat64 (Finite 120))])) =
     [(''/usr/bin/say'', [''-v'', ''Alex'', ''-r'', ''120'', ''Hello world''])]"
proof -
  let ?r = "request_of [(''text'', AString '' Hello world ''), (''voice'', AString ''Alex''),
                       (''rate'', AFloat64 (Finite 120))]"
  have t: "?r ''text'' = Some (AString '' Hello world '')" by (simp add: request_of_def)
  have ts: "TrimSpace '' Hello world '' = ''Hello world''" by code_simp
  then have tn: "TrimSpace '' Hello world '' \<noteq> []" by simp
  have v: "\<forall>v. ?r ''voice'' = Some v \<longrightarrow> (\<exists>s. v = AString s \<and> s \<noteq> [])"
    by (simp add: request_of_def)
  have r: "\<forall>r. ?r ''rate'' = Some (AFloat64 r) \<and> f64_gt r 0 \<longrightarrow>
                   (\<exists>q. r = Finite q \<and> 90 \<le> q \<and> q \<le> 500)"
    by (simp add: request_of_def)
  have f: "decimal (nat (round_half_even 120)) = ''120''" by code_simp
  have vv: "?r ''voice'' = Some (AString ''Alex'')" by (simp add: request_of_def)
  have rr: "?r ''rate'' = Some (AFloat64 (Finite 120))" by (simp add: request_of_def)
  from built_argument_list[where request = ?r and t = "'' Hello world ''" and ctxErr = None
         and run = "run_ok []", OF t tn v r]
  show ?thesis by (simp add: vv rr ts f sayCommand_def)
qed

text \<open>
  Claim C1 as stated fails: it puts the rate pair in the list whenever a rate is present,
  but a present rate that is not greater than 0 (zero, a negative number, NaN) adds no
  \<open>-r\<close> pair, by the guard \<open>rate > 0\<close>.
\<close>

theorem nonpositive_rate_counterexample:
  "handleSpeak_main None (run_ok [])
       (request_of [(''text'', AString ''Hi''), (''rate'', AFloat64 (Finite 0))]) =
     (ToolResultText ''Successfully spoke: Hi'', [(sayCommand, [''Hi''])]) \<and>
   handleSpeak_part None (run_ok [])
       (request_of [(''text'', AString ''Hi''), (''rate'', AFloat64 (Finite (- 5)))]) =
     (ToolResultText ''Successfully spoke: Hi'', [(sayCommand, [''Hi''])]) \<and>
   snd (handleSpeak_main None (run_ok [])
       (request_of [(''text'', AString ''Hi''), (''rate'', AFloat64 NaN)])) =
     [(sayCommand, [''Hi''])]"
  by code_simp

section \<open>The rate token\<close>

lemma digit_value: "n < 10 \<Longrightarrow> of_char (''0123456789'' ! n) - 48 = (n::nat)"
proof -
  assume "n < 10"
  then have "n \<in> {0,1,2,3,4,5,6,7,8,9}" by auto
  then show ?thesis by auto
qed

lemma undecimal_decimal: "undecimal (decimal n) = n"
proof (induction n rule: decimal.induct)
  case (1 n)
  show ?case
  proof (cases "n < 10")
    case True
    then show ?thesis
      using digit_value[of n] by (subst decimal.simps) (simp add: undecimal_def)
  next
    case False
    with 1 have ih: "undecimal (decimal (n div 10)) = n div 10" by simp
    have "n mod 10 < 10" by simp
    from digit_value[OF this] False ih show ?thesis
      by (subst decimal.simps) (simp add: undecimal_def)
  qed
qed

lemma round_half_even_floor:
  "round_half_even q = \<lfloor>q\<rfloor> \<or> round_half_even q = \<lfloor>q\<rfloor> + 1"
  by (simp add: round_half_even_def Let_def)

lemma round_half_even_near: "\<bar>q - of_int (round_half_even q)\<bar> \<le> 1 / 2"
proof -
  have b: "of_int \<lfloor>q\<rfloor> \<le> q" "q < of_int \<lfloor>q\<rfloor> + 1" by linarith+
  show ?thesis
  proof (cases "q - of_int \<lfloor>q\<rfloor> < 1 / 2")
    case True
    then have "round_half_even q = \<lfloor>q\<rfloor>" by (simp add: round_half_even_def Let_def)
    with True b show ?thesis by simp
  next
    case False
    show ?thesis
    proof (cases "1 / 2 < q - of_int \<lfloor>q\<rfloor>")
      case True
      with False have "round_half_even q = \<lfloor>q\<rfloor> + 1"
        by (simp add: round_half_even_def Let_def)
      with True b show ?thesis by simp
    next
      case F2: False
      with False have e: "q - of_int \<lfloor>q\<rfloor> = 1 / 2" by simp
      from round_half_even_floor[of q] show ?thesis
      proof
        assume "round_half_even q = \<lfloor>q\<rfloor>"
        with e show ?thesis by simp
      next
        assume "round_half_even q = \<lfloor>q\<rfloor> + 1"
        with e show ?thesis by simp
      qed
    qed
  qed
qed

lemma round_half_even_ge_int: "of_int a \<le> q \<Longrightarrow> a \<le> round_half_even q"
proof -
  assume "of_int a \<le> q"
  then have "a \<le> \<lfloor>q\<rfloor>" by (simp add: le_floor_iff)
  with round_half_even_floor[of q] show ?thesis by linarith
qed

lemma round_half_even_le_int: "q \<le> of_int b \<Longrightarrow> round_half_even q \<le> b"
proof -
  assume h: "q \<le> of_int b"
  have f: "of_int \<lfloor>q\<rfloor> \<le> q" by linarith
  show ?thesis
  proof (cases "q = of_int \<lfloor>q\<rfloor>")
    case True
    then have "q - of_int \<lfloor>q\<rfloor> = 0" by simp
    then have r: "round_half_even q = \<lfloor>q\<rfloor>" by (simp add: round_half_even_def Let_def)
    from h have "\<lfloor>q\<rfloor> \<le> b" by (simp add: floor_le_iff)
    with r show ?thesis by simp
  next
    case False
    from not_sym[OF False] f have "of_int \<lfloor>q\<rfloor> < q"
      by (rule order.not_eq_order_implies_strict)
    with h have "of_int \<lfloor>q\<rfloor> < (of_int b :: rat)" by linarith
    then have "\<lfloor>q\<rfloor> < b" by simp
    with round_half_even_floor[of q] show ?thesis by linarith
  qed
qed

text \<open>
  Claim C7. For a speak request with valid text and a rate \<open>q\<close> in [90, 500], both versions
  of \<open>handleSpeak\<close> put, right after \<open>-r\<close>, the decimal digits of an integer \<open>n\<close>
  that is nearest to \<open>q\<close> (\<open>|q - n| \<le> 1/2\<close>) and again lies in [90, 500]. The witness
  is the \<open>float64\<close> nearest to 120.4, whose token is \<open>120\<close>.
\<close>

theorem rate_token_is_rounded_rate:
  assumes hasText: "request ''text'' = Some (AString t)" "TrimSpace t \<noteq> []"
      and rate: "request ''rate'' = Some (AFloat64 (Finite q))" "90 \<le> q" "q \<le> 500"
  shows "\<exists>n. snd (handleSpeak_main ctxErr run request) =
               [(sayCommand, add_voice request [] @ [''-r'', decimal n, TrimSpace t])] \<and>
             snd (handleSpeak_part ctxErr run request) =
               [(sayCommand, add_voice request [] @ [''-r'', decimal n, TrimSpace t])] \<and>
             undecimal (decimal n) = n \<and>
             \<bar>q - of_nat n\<bar> \<le> 1 / 2 \<and> 90 \<le> n \<and> n \<le> 500"
proof -
  let ?z = "round_half_even q"
  let ?n = "nat ?z"
  have "of_int 90 \<le> q" "q \<le> of_int 500" using rate by simp_all
  then have z: "90 \<le> ?z" "?z \<le> 500"
    using round_half_even_ge_int[of 90 q] round_half_even_le_int[of q 500] by simp_all
  then have n: "of_nat ?n = (of_int ?z :: rat)" "90 \<le> ?n" "?n \<le> 500" by simp_all
  have a: "\<bar>q\<bar> = q" using rate by simp
  have r: "add_rate request args = Inr (args @ [''-r'', decimal ?n])" for args
    using rate by (simp add: add_rate_def a)
  have "snd (handleSpeak_main ctxErr run request) =
               [(sayCommand, add_voice request [] @ [''-r'', decimal ?n, TrimSpace t])]"
       "snd (handleSpeak_part ctxErr run request) =
               [(sayCommand, add_voice request [] @ [''-r'', decimal ?n, TrimSpace t])]"
    by (simp_all add: handleSpeak_main_text[where request = request and t = t, OF hasText]
                  handleSpeak_part_text[where request = request and t = t, OF hasText] r)
  moreover have "\<bar>q - of_nat ?n\<bar> \<le> 1 / 2"
    using round_half_even_near[of q] n(1) by simp
  ultimately show ?thesis using n undecimal_decimal by blast
qed

theorem rate_token_is_rounded_rate_witness:
  "snd (handleSpeak_main None (run_ok [])
     (request_of [(''text'', AString ''Hello''),
                  (''rate'', AFloat64 (Finite (4236198399495373 / 35184372088832)))])) =
     [(sayCommand, [''-r'', ''120'', ''Hello''])]"
proof -
  let ?q = "4236198399495373 / 35184372088832 :: rat"
  let ?r = "request_of [(''text'', AString ''Hello''), (''rate'', AFloat64 (Finite ?q))]"
  have t: "?r ''text'' = Some (AString ''Hello'')" by (simp add: request_of_def)
  have ts: "TrimSpace ''Hello'' = ''Hello''" by code_simp
  then have tn: "TrimSpace ''Hello'' \<noteq> []" by simp
  have r: "?r ''rate'' = Some (AFloat64 (Finite ?q))" by (simp add: request_of_def)
  have b: "90 \<le> ?q" "?q \<le> 500" by simp_all
  have v: "add_voice ?r [] = []" by (simp add: add_voice_def request_of_def)
  from rate_token_is_rounded_rate[where request = ?r and t = "''Hello''" and ctxErr = None
         and run = "run_ok []" and q = ?q, OF t tn r b]
  obtain n where n: "snd (handleSpeak_main None (run_ok []) ?r) =
               [(sayCommand, add_voice ?r [] @ [''-r'', decimal n, TrimSpace ''Hello''])]"
      and u: "undecimal (decimal n) = n" and c: "\<bar>?q - of_nat n\<bar> \<le> 1 / 2"
    by blast
  have "n = 120"
  proof -
    from c have "?q - 1 / 2 \<le> of_nat n" "of_nat n \<le> ?q + 1 / 2" by linarith+
    then have "(of_nat 119 :: rat) < of_nat n" "(of_nat n :: rat) < of_nat 121" by simp_all
    then have "119 < n" "n < 121" by (simp_all only: of_nat_less_iff)
    then show ?thesis by simp
  qed
  moreover have "decimal 120 = ''120''" by code_simp
  ultimately show ?thesis using n by (simp add: v ts)
qed

section \<open>Execution failures and the permission guidance\<close>

lemma handleSpeak_main_started:
  assumes "snd (handleSpeak_main ctxErr run request) = [(sayCommand, args)]"
  shows "fst (handleSpeak_main ctxErr run request) =
           (case Err (run sayCommand args) of
              Some err \<Rightarrow>
                ToolResultError (speak_failure_main ctxErr err (Output (run sayCommand args)))
            | None \<Rightarrow> ToolResultText (''Successfully spoke: '' @ last args))"
  using assms
  by (auto simp: handleSpeak_main_def Let_def split: sum.splits option.splits if_splits)

lemma handleSpeak_part_started:
  assumes "snd (handleSpeak_part ctxErr run request) = [(sayCommand, args)]"
  shows "fst (handleSpeak_part ctxErr run request) =
           (case Err (run sayCommand args) of
              Some err \<Rightarrow>
                ToolResultError
                  (formatCommandError ctxErr ''Execute speech synthesis'' err
                     (Output (run sayCommand args)))
            | None \<Rightarrow> ToolResultText (''Successfully spoke: '' @ last args))"
  using assms
  by (auto simp: handleSpeak_part_def Let_def split: sum.splits option.splits if_splits)

lemma ToLower_actions:
  "ToLower ''Execute speech synthesis'' = ''execute speech synthesis''"
  "ToLower ''Retrieve voice list'' = ''retrieve voice list''"
  by code_simp+

lemma speak_failure_main_live:
  "speak_failure_main None err output =
     base_error ''execute speech synthesis'' err output @
     (if Contains err ''permission denied'' then permissionGuidance else [])"
  by (simp add: speak_failure_main_def base_error_def errors_Is_def Let_def)

lemma formatCommandError_live:
  "formatCommandError None action err output =
     base_error (ToLower action) err output @
     (if Contains err ''permission denied'' then permissionGuidance else [])"
  by (simp add: formatCommandError_def base_error_def errors_Is_def Let_def)

text \<open>
  Claim C5, as the code has it. When the context is neither cancelled nor past its
  deadline and the error text of the failed command contains \<open>permission denied\<close>, the
  message of \<open>handleSpeak\<close> (both versions), of \<open>handleVoices\<close> in
  \<open>src/unnamed/part_000\<close> and of \<open>formatCommandError\<close> is the base error message
  followed by the permission guidance.
\<close>

theorem permission_guidance_appended:
  assumes "ctxErr = None" and "Contains err ''permission denied''"
  shows
    "(\<forall>args.
        snd (handleSpeak_main ctxErr run request) = [(sayCommand, args)] \<and>
        Err (run sayCommand args) = Some err \<longrightarrow>
          fst (handleSpeak_main ctxErr run request) =
            ToolResultError
              (base_error ''execute speech synthesis'' err (Output (run sayCommand args)) @
               permissionGuidance)) \<and>
     (\<forall>args.
        snd (handleSpeak_part ctxErr run request) = [(sayCommand, args)] \<and>
        Err (run sayCommand args) = Some err \<longrightarrow>
          fst (handleSpeak_part ctxErr run request) =
            ToolResultError
              (base_error ''execute speech synthesis'' err (Output (run sayCommand args)) @
               permissionGuidance)) \<and>
     (Err (run sayCommand [''-v'', ''?'']) = Some err \<longrightarrow>
        fst (handleVoices_part enc ctxErr run request) =
          ToolResultError
            (base_error ''retrieve voice list'' err (Output (run sayCommand [''-v'', ''?''])) @
             permissionGuidance)) \<and>
     (\<forall>action output.
        formatCommandError ctxErr action err output =
          base_error (ToLower action) err output @ permissionGuidance)"
proof (intro conjI allI impI)
  fix args
  assume "snd (handleSpeak_main ctxErr run request) = [(sayCommand, args)] \<and>
          Err (run sayCommand args) = Some err"
  then show "fst (handleSpeak_main ctxErr run request) =
            ToolResultError
              (base_error ''execute speech synthesis'' err (Output (run sayCommand args)) @
               permissionGuidance)"
    using assms by (simp add: handleSpeak_main_started speak_failure_main_live)
next
  fix args
  assume "snd (handleSpeak_part ctxErr run request) = [(sayCommand, args)] \<and>
          Err (run sayCommand args) = Some err"
  then show "fst (handleSpeak_part ctxErr run request) =
            ToolResultError
              (base_error ''execute speech synthesis'' err (Output (run sayCommand args)) @
               permissionGuidance)"
    using assms
    by (simp add: handleSpeak_part_started formatCommandError_live ToLower_actions)
next
  assume "Err (run sayCommand [''-v'', ''?'']) = Some err"
  then show "fst (handleVoices_part enc ctxErr run request) =
          ToolResultError
            (base_error ''retrieve voice list'' err (Output (run sayCommand [''-v'', ''?''])) @
             permissionGuidance)"
    using assms
    by (simp add: handleVoices_part_def Let_def formatCommandError_live ToLower_actions)
next
  fix action out
  show "formatCommandError ctxErr action err out =
          base_error (ToLower action) err out @ permissionGuidance"
    using assms by (simp add: formatCommandError_live)
qed

theorem permission_guidance_appended_witness:
  "fst (handleSpeak_main None (run_fails ''boo'' ''exit status 1: permission denied'')
          (request_of [(''text'', AString ''Hello'')])) =
     ToolResultError
       (''Failed to execute speech synthesis: exit status 1: permission denied'' @
        [CHR 0x0A] @ ''Output: boo'' @ permissionGuidance)"
proof -
  let ?run = "run_fails ''boo'' ''exit status 1: permission denied''"
  let ?r = "request_of [(''text'', AString ''Hello'')]"
  have c: "Contains ''exit status 1: permission denied'' ''permission denied''"
    by code_simp
  have s: "snd (handleSpeak_main None ?run ?r) = [(sayCommand, [''Hello''])] \<and>
           Err (?run sayCommand [''Hello'']) = Some ''exit status 1: permission denied''"
    by code_simp
  have "None = (None :: ctx_err option)" by simp
  from permission_guidance_appended[OF this c, where run = ?run and request = ?r,
         THEN conjunct1, THEN spec, THEN mp, OF s]
  show ?thesis by (simp add: base_error_def run_fails_def)
qed

text \<open>
  Claim C5 as stated fails: with a cancelled context the cancellation message is returned
  and the guidance is not in it, although the error text contains \<open>permission denied\<close>.
\<close>

theorem permission_guidance_counterexample:
  "Contains ''fork/exec /usr/bin/say: permission denied'' ''permission denied'' \<and>
   handleSpeak_main (Some Canceled)
       (run_fails [] ''fork/exec /usr/bin/say: permission denied'')
       (request_of [(''text'', AString ''Hello'')]) =
     (ToolResultError ''Speech synthesis cancelled: context canceled'',
      [(sayCommand, [''Hello''])]) \<and>
   formatCommandError (Some Canceled) ''Execute speech synthesis''
       ''fork/exec /usr/bin/say: permission denied'' [] =
     ''Execute speech synthesis cancelled: context canceled'' \<and>
   \<not> Contains ''Speech synthesis cancelled: context canceled'' permissionGuidance \<and>
   \<not> Contains ''Execute speech synthesis cancelled: context canceled'' permissionGuidance"
  by code_simp

section \<open>The two source files compared\<close>

lemma failure_texts_agree:
  "formatCommandError None ''Execute speech synthesis'' err output =
     speak_failure_main None err output"
  by (simp add: formatCommandError_live speak_failure_main_live ToLower_actions)

text \<open>
  Claim C10, as the code has it. The two versions always start the same commands. They
  return the same result whenever validation fails or the command succeeds; on a failed
  command, \<open>handleSpeak\<close> agrees when the context is neither cancelled nor past its
  deadline, and \<open>handleVoices\<close> agrees when moreover the error text does not contain
  \<open>permission denied\<close>.
\<close>

theorem versions_agree_outside_cancellation:
  "snd (handleSpeak_part ctxErr run request) = snd (handleSpeak_main ctxErr run request) \<and>
   snd (handleVoices_part enc ctxErr run request) =
     snd (handleVoices_main enc ctxErr run request) \<and>
   (ctxErr = None \<longrightarrow>
      handleSpeak_part ctxErr run request = handleSpeak_main ctxErr run request) \<and>
   ((\<forall>args. snd (handleSpeak_main ctxErr run request) = [(sayCommand, args)] \<longrightarrow>
        Err (run sayCommand args) = None) \<longrightarrow>
      handleSpeak_part ctxErr run request = handleSpeak_main ctxErr run request) \<and>
   (Err (run sayCommand [''-v'', ''?'']) = None \<longrightarrow>
      handleVoices_part enc ctxErr run request = handleVoices_main enc ctxErr run request) \<and>
   (\<forall>err. ctxErr = None \<and> Err (run sayCommand [''-v'', ''?'']) = Some err \<and>
        \<not> Contains err ''permission denied'' \<longrightarrow>
      handleVoices_part enc ctxErr run request = handleVoices_main enc ctxErr run request)"
proof (intro conjI allI impI)
  show s: "snd (handleSpeak_part ctxErr run request) = snd (handleSpeak_main ctxErr run request)"
    by (simp add: handleSpeak_part_def handleSpeak_main_def Let_def split: sum.split)
  show "snd (handleVoices_part enc ctxErr run request) =
     snd (handleVoices_main enc ctxErr run request)"
    by (simp add: handleVoices_part_def handleVoices_main_def Let_def)
  show "handleSpeak_part ctxErr run request = handleSpeak_main ctxErr run request"
    if "ctxErr = None"
    using that
    by (simp add: handleSpeak_part_def handleSpeak_main_def Let_def failure_texts_agree
             split: sum.split option.split)
  show "handleSpeak_part ctxErr run request = handleSpeak_main ctxErr run request"
    if h: "\<forall>args. snd (handleSpeak_main ctxErr run request) = [(sayCommand, args)] \<longrightarrow>
        Err (run sayCommand args) = None"
  proof (cases "snd (handleSpeak_main ctxErr run request) = []")
    case True
    then show ?thesis
      by (auto simp: handleSpeak_part_def handleSpeak_main_def Let_def
               split: sum.splits if_splits)
  next
    case False
    then obtain args where a: "snd (handleSpeak_main ctxErr run request) = [(sayCommand, args)]"
      by (auto simp: handleSpeak_main_def Let_def split: sum.splits if_splits)
    with h have e: "Err (run sayCommand args) = None" by blast
    from a s have b: "snd (handleSpeak_part ctxErr run request) = [(sayCommand, args)]"
      by simp
    from handleSpeak_main_started[OF a] handleSpeak_part_started[OF b] e
    have "fst (handleSpeak_part ctxErr run request) = fst (handleSpeak_main ctxErr run request)"
      by simp
    with s show ?thesis by (simp add: prod_eq_iff)
  qed
  show "handleVoices_part enc ctxErr run request = handleVoices_main enc ctxErr run request"
    if "Err (run sayCommand [''-v'', ''?'']) = None"
    using that by (simp add: handleVoices_part_def handleVoices_main_def Let_def)
  show "handleVoices_part enc ctxErr run request = handleVoices_main enc ctxErr run request"
    if "ctxErr = None \<and> Err (run sayCommand [''-v'', ''?'']) = Some err \<and>
        \<not> Contains err ''permission denied''" for err
    using that
    by (simp add: handleVoices_part_def handleVoices_main_def Let_def formatCommandError_live
                  ToLower_actions base_error_def errors_Is_def)
qed

theorem versions_agree_outside_cancellation_witness:
  "handleSpeak_part None (run_fails ''boo'' ''exit status 1'')
       (request_of [(''text'', AString ''Hello'')]) =
   handleSpeak_main None (run_fails ''boo'' ''exit status 1'')
       (request_of [(''text'', AString ''Hello'')]) \<and>
   handleVoices_part quoted (Some Canceled) (run_ok [])  (request_of []) =
   handleVoices_main quoted (Some Canceled) (run_ok [])  (request_of [])"
proof -
  have a: "None = (None :: ctx_err option)" by simp
  have b: "Err (run_ok [] sayCommand [''-v'', ''?'']) = None" by (simp add: run_ok_def)
  from versions_agree_outside_cancellation[where ctxErr = None
         and run = "run_fails ''boo'' ''exit status 1''"
         and request = "request_of [(''text'', AString ''Hello'')]",
         THEN conjunct2, THEN conjunct2, THEN conjunct1, THEN mp, OF a]
       versions_agree_outside_cancellation[where ctxErr = "Some Canceled"
         and run = "run_ok []" and enc = quoted and request = "request_of []",
         THEN conjunct2, THEN conjunct2, THEN conjunct2, THEN conjunct2, THEN conjunct1,
         THEN mp, OF b]
  show ?thesis by simp
qed

text \<open>
  Claim C10 as stated fails: with a cancelled context the two versions of \<open>handleSpeak\<close>
  name the action differently, and on a \<open>permission denied\<close> failure only the
  \<open>handleVoices\<close> of \<open>src/unnamed/part_000\<close> appends the guidance.
\<close>

theorem versions_differ_counterexample:
  "handleSpeak_main (Some Canceled) (run_fails [] ''signal: killed'')
       (request_of [(''text'', AString ''Hello'')]) =
     (ToolResultError ''Speech synthesis cancelled: context canceled'',
      [(sayCommand, [''Hello''])]) \<and>
   handleSpeak_part (Some Canceled) (run_fails [] ''signal: killed'')
       (request_of [(''text'', AString ''Hello'')]) =
     (ToolResultError ''Execute speech synthesis cancelled: context canceled'',
      [(sayCommand, [''Hello''])]) \<and>
   handleSpeak_main (Some Canceled) (run_fails [] ''signal: killed'')
       (request_of [(''text'', AString ''Hello'')]) \<noteq>
   handleSpeak_part (Some Canceled) (run_fails [] ''signal: killed'')
       (request_of [(''text'', AString ''Hello'')]) \<and>
   fst (handleVoices_main quoted None (run_fails [] ''permission denied'') (request_of [])) =
     ToolResultError ''Failed to retrieve voice list: permission denied'' \<and>
   fst (handleVoices_part quoted None (run_fails [] ''permission denied'') (request_of [])) =
     ToolResultError (''Failed to retrieve voice list: permission denied'' @ permissionGuidance)"
  by code_simp

section \<open>The pattern search finds a match exactly when one exists\<close>

lemma counts_iff:
  "k \<in> set (counts c q s) \<longleftrightarrow> quant_ok q k \<and> k \<le> length (takeWhile (cls_match c) s)"
  by (cases q) (auto simp: counts_def Let_def)

lemma run_take:
  "k \<le> length (takeWhile P s) \<longleftrightarrow> k \<le> length s \<and> list_all P (take k s)"
proof (induction s arbitrary: k)
  case Nil
  then show ?case by simp
next
  case (Cons a s)
  then show ?case by (cases k) auto
qed

lemma rematch_sound:
  "rematch ps s = Some segs \<Longrightarrow> fits ps segs \<and> concat segs = s"
proof (induction ps arbitrary: s segs)
  case Nil
  then show ?case by (simp split: if_splits)
next
  case (Cons p ps)
  obtain c q where p: "p = (c, q)" by (cases p)
  from Cons.prems p obtain k rest where
    f: "find (\<lambda>k. rematch ps (drop k s) \<noteq> None) (counts c q s) = Some k"
    and r: "rematch ps (drop k s) = Some rest" and s: "segs = take k s # rest"
    by (auto split: option.splits)
  from f have "k \<in> set (counts c q s)"
    by (auto simp: find_Some_iff)
  then have k: "quant_ok q k" "k \<le> length s" "list_all (cls_match c) (take k s)"
    by (simp_all add: counts_iff run_take)
  from Cons.IH[OF r] have "fits ps rest" "concat rest = drop k s" by simp_all
  with k p s show ?case by (simp add: min_absorb2)
qed

lemma rematch_complete:
  "fits ps segs \<Longrightarrow> rematch ps (concat segs) \<noteq> None"
proof (induction ps segs rule: fits.induct)
  case (1 segs)
  then show ?case by simp
next
  case (2 c q ps)
  then show ?case by simp
next
  case (3 c q ps seg segs)
  let ?s = "concat (seg # segs)"
  let ?k = "length seg"
  from 3 have ih: "rematch ps (drop ?k ?s) \<noteq> None" by simp
  from "3.prems" have "?k \<in> set (counts c q ?s)"
    by (simp add: counts_iff run_take)
  with ih have "find (\<lambda>k. rematch ps (drop k ?s) \<noteq> None) (counts c q ?s) \<noteq> None"
    by (auto simp: find_None_iff)
  then obtain k where f: "find (\<lambda>k. rematch ps (drop k ?s) \<noteq> None) (counts c q ?s) = Some k"
    by auto
  then have "rematch ps (drop k ?s) \<noteq> None" by (auto simp: find_Some_iff)
  with f show ?case by auto
qed

lemma rematch_iff:
  "rematch ps s \<noteq> None \<longleftrightarrow> (\<exists>segs. fits ps segs \<and> concat segs = s)"
  using rematch_sound rematch_complete by blast

lemma cls_runs:
  "list_all (cls_match Dot) s \<longleftrightarrow> CHR 0x0A \<notin> set s"
  "list_all (cls_match Space) s \<longleftrightarrow> set s \<subseteq> pattern_space"
  "list_all (cls_match NonSpace) s \<longleftrightarrow> set s \<inter> pattern_space = {}"
  by (induction s) (auto simp: pattern_space_def)

lemma lit_once: "list_all (cls_match (Lit a)) s \<and> length s = 1 \<longleftrightarrow> s = [a]"
  by (cases s) auto

lemma fits_ConsE:
  assumes "fits ((c, q) # ps) segs"
  obtains seg rest where "segs = seg # rest" "list_all (cls_match c) seg"
    "quant_ok q (length seg)" "fits ps rest"
  using assms by (cases segs) auto

lemma nonempty_length: "(Suc 0 \<le> length s) = (s \<noteq> [])"
  by (cases s) auto

lemma fits_voicePatternD:
  assumes "fits voicePattern segs"
  shows "\<exists>name ws1 locale ws2 ws3 description.
        segs = [name, ws1, locale, ws2, ''#'', ws3, description] \<and>
        name \<noteq> [] \<and> CHR 0x0A \<notin> set name \<and>
        ws1 \<noteq> [] \<and> set ws1 \<subseteq> pattern_space \<and>
        locale \<noteq> [] \<and> set locale \<inter> pattern_space = {} \<and>
        ws2 \<noteq> [] \<and> set ws2 \<subseteq> pattern_space \<and>
        set ws3 \<subseteq> pattern_space \<and>
        CHR 0x0A \<notin> set description"
proof -
  from assms[unfolded voicePattern_def] obtain a r1 where
    1: "segs = a # r1" "list_all (cls_match Dot) a" "quant_ok PlusLazy (length a)"
    and f1: "fits [(Space, PlusGreedy), (NonSpace, PlusGreedy), (Space, PlusGreedy),
                   (Lit (CHR ''#''), Once), (Space, StarGreedy), (Dot, StarGreedy)] r1"
    by (rule fits_ConsE)
  from f1 obtain b r2 where
    2: "r1 = b # r2" "list_all (cls_match Space) b" "quant_ok PlusGreedy (length b)"
    and f2: "fits [(NonSpace, PlusGreedy), (Space, PlusGreedy),
                   (Lit (CHR ''#''), Once), (Space, StarGreedy), (Dot, StarGreedy)] r2"
    by (rule fits_ConsE)
  from f2 obtain c r3 where
    3: "r2 = c # r3" "list_all (cls_match NonSpace) c" "quant_ok PlusGreedy (length c)"
    and f3: "fits [(Space, PlusGreedy),
                   (Lit (CHR ''#''), Once), (Space, StarGreedy), (Dot, StarGreedy)] r3"
    by (rule fits_ConsE)
  from f3 obtain d r4 where
    4: "r3 = d # r4" "list_all (cls_match Space) d" "quant_ok PlusGreedy (length d)"
    and f4: "fits [(Lit (CHR ''#''), Once), (Space, StarGreedy), (Dot, StarGreedy)] r4"
    by (rule fits_ConsE)
  from f4 obtain e r5 where
    5: "r4 = e # r5" "list_all (cls_match (Lit (CHR ''#''))) e" "quant_ok Once (length e)"
    and f5: "fits [(Space, StarGreedy), (Dot, StarGreedy)] r5"
    by (rule fits_ConsE)
  from f5 obtain f r6 where
    6: "r5 = f # r6" "list_all (cls_match Space) f"
    and f6: "fits [(Dot, StarGreedy)] r6"
    by (rule fits_ConsE)
  from f6 obtain g r7 where
    7: "r6 = g # r7" "list_all (cls_match Dot) g" and f7: "fits [] r7"
    by (rule fits_ConsE)
  from 5 have e: "e = ''#''" using lit_once[of "CHR ''#''" e] by simp
  from f7 have "r7 = []" by simp
  with 1 2 3 4 5 6 7 e have
    "segs = [a, b, c, d, ''#'', f, g] \<and>
        a \<noteq> [] \<and> CHR 0x0A \<notin> set a \<and>
        b \<noteq> [] \<and> set b \<subseteq> pattern_space \<and>
        c \<noteq> [] \<and> set c \<inter> pattern_space = {} \<and>
        d \<noteq> [] \<and> set d \<subseteq> pattern_space \<and>
        set f \<subseteq> pattern_space \<and>
        CHR 0x0A \<notin> set g"
    by (simp add: cls_runs nonempty_length)
  then show ?thesis by blast
qed

lemma fits_voicePatternI:
  assumes "name \<noteq> []" "CHR 0x0A \<notin> set name"
        "ws1 \<noteq> []" "set ws1 \<subseteq> pattern_space"
        "locale \<noteq> []" "set locale \<inter> pattern_space = {}"
        "ws2 \<noteq> []" "set ws2 \<subseteq> pattern_space"
        "set ws3 \<subseteq> pattern_space"
        "CHR 0x0A \<notin> set description"
  shows "fits voicePattern [name, ws1, locale, ws2, ''#'', ws3, description]"
  using assms by (simp add: voicePattern_def cls_runs nonempty_length)

lemma well_formed_line_iff:
  "well_formed_line line \<longleftrightarrow> rematch voicePattern (TrimSpace line) \<noteq> None"
proof
  assume "well_formed_line line"
  then obtain nm ws1 loc ws2 ws3 descr where
    t: "TrimSpace line = nm @ ws1 @ loc @ ws2 @ ''#'' @ ws3 @ descr" and
    c: "nm \<noteq> []" "CHR 0x0A \<notin> set nm"
        "ws1 \<noteq> []" "set ws1 \<subseteq> pattern_space"
        "loc \<noteq> []" "set loc \<inter> pattern_space = {}"
        "ws2 \<noteq> []" "set ws2 \<subseteq> pattern_space"
        "set ws3 \<subseteq> pattern_space"
        "CHR 0x0A \<notin> set descr"
    unfolding well_formed_line_def by blast
  from c have "fits voicePattern [nm, ws1, loc, ws2, ''#'', ws3, descr]"
    by (rule fits_voicePatternI)
  from rematch_complete[OF this] t show "rematch voicePattern (TrimSpace line) \<noteq> None"
    by simp
next
  assume "rematch voicePattern (TrimSpace line) \<noteq> None"
  then obtain segs where "rematch voicePattern (TrimSpace line) = Some segs" by auto
  from rematch_sound[OF this] have f: "fits voicePattern segs" and
    cc: "concat segs = TrimSpace line" by simp_all
  from fits_voicePatternD[OF f] obtain nm ws1 loc ws2 ws3 descr where
    s: "segs = [nm, ws1, loc, ws2, ''#'', ws3, descr]" and
    c: "nm \<noteq> [] \<and> CHR 0x0A \<notin> set nm \<and>
        ws1 \<noteq> [] \<and> set ws1 \<subseteq> pattern_space \<and>
        loc \<noteq> [] \<and> set loc \<inter> pattern_space = {} \<and>
        ws2 \<noteq> [] \<and> set ws2 \<subseteq> pattern_space \<and>
        set ws3 \<subseteq> pattern_space \<and>
        CHR 0x0A \<notin> set descr"
    by blast
  from s cc have "TrimSpace line = nm @ ws1 @ loc @ ws2 @ ''#'' @ ws3 @ descr"
    by simp
  with c show "well_formed_line line" unfolding well_formed_line_def by blast
qed

section \<open>The parse loop, line by line\<close>

lemma rematch_Nil: "rematch voicePattern [] = None"
  by code_simp

lemma parse_lines_acc: "parse_lines acc ls = acc @ parse_lines [] ls"
proof (induction ls arbitrary: acc)
  case Nil
  then show ?case by simp
next
  case (Cons l ls)
  show ?case
    using Cons.IH[of "acc @ [x]" for x] Cons.IH[of "[x]" for x] Cons.IH[of acc]
    by (simp add: Let_def)
qed

lemma parse_line_cases:
  "parse_line line =
     (case rematch voicePattern (TrimSpace line) of
        None \<Rightarrow> []
      | Some segs \<Rightarrow> [\<lparr>Name = TrimSpace (segs ! 0), Locale = TrimSpace (segs ! 2),
                        Description = TrimSpace (segs ! 6)\<rparr>])"
  by (simp add: parse_line_def Let_def FindStringSubmatch_def rematch_Nil split: option.split)

lemma parse_lines_concat: "parse_lines [] ls = concat (map parse_line ls)"
proof (induction ls)
  case Nil
  then show ?case by simp
next
  case (Cons l ls)
  have "parse_lines [] (l # ls) = parse_line l @ parse_lines [] ls"
    using parse_lines_acc[of "[x]" ls for x] by (simp add: parse_line_def Let_def)
  with Cons show ?case by simp
qed

lemma Split_no_sep: "sep \<notin> set l \<Longrightarrow> Split l sep = [l]"
  by (induction l) auto

lemma Split_append:
  "sep \<notin> set l \<Longrightarrow> Split (l @ sep # rest) sep = l # Split rest sep"
  by (induction l) auto

lemma Split_Join:
  assumes "ls \<noteq> []" "\<forall>l\<in>set ls. sep \<notin> set l"
  shows "Split (Join ls [sep]) sep = ls"
  using assms
proof (induction ls "[sep]" rule: Join.induct)
  case 1
  then show ?case by simp
next
  case (2 x)
  then show ?case by (simp add: Split_no_sep)
next
  case (3 x y ys)
  then show ?case by (simp add: Split_append)
qed

lemma Split_sets_union: "\<Union>(set ` set (Split s sep)) \<subseteq> set s"
  by (induction s) (auto split: list.splits; blast)+

lemma Split_sets: "l \<in> set (Split s sep) \<Longrightarrow> set l \<subseteq> set s"
  using Split_sets_union[of s sep] by blast

lemma parseVoices_concat:
  "parseVoices output = concat (map parse_line (Split output (CHR 0x0A)))"
  by (simp add: parseVoices_def parse_lines_concat)

lemma parseVoices_single: "CHR 0x0A \<notin> set line \<Longrightarrow> parseVoices line = parse_line line"
  by (simp add: parseVoices_concat Split_no_sep)

lemma parse_line_length: "length (parse_line line) = (if well_formed_line line then 1 else 0)"
  by (auto simp: parse_line_cases well_formed_line_iff split: option.splits)

lemma parseVoices_lines:
  assumes "\<forall>l\<in>set ls. CHR 0x0A \<notin> set l"
  shows "parseVoices (Join ls [CHR 0x0A]) = concat (map parseVoices ls)"
proof (cases "ls = []")
  case True
  have "parse_line [] = []"
    by (simp add: parse_line_cases rematch_Nil TrimSpace_def TrimLeft_Nil TrimRight_Nil)
  with True show ?thesis by (simp add: parseVoices_concat)
next
  case False
  have a: "parseVoices (Join ls [CHR 0x0A]) = concat (map parse_line ls)"
    using False assms by (simp add: parseVoices_concat Split_Join)
  have b: "map parseVoices ls = map parse_line ls"
    using assms by (simp add: parseVoices_single)
  show ?thesis by (simp only: a b)
qed

lemma length_concat_singletons:
  "\<forall>x\<in>set xs. length (f x) = (if P x then 1 else 0) \<Longrightarrow>
     length (concat (map f xs)) = length (filter P xs)"
  by (induction xs) auto

section \<open>The voice-list parser\<close>

lemma TrimLeft_suffix: "suffix (TrimLeft s) s"
proof (induction s rule: TrimLeft.induct)
  case (1 s)
  show ?case
  proof (cases "find (\<lambda>w. prefix w s) space_runes")
    case None
    then show ?thesis by (subst TrimLeft.simps) simp
  next
    case (Some w)
    from "1"[OF Some] have "suffix (TrimLeft (drop (length w) s)) s"
      using suffix_drop suffix_order.trans by blast
    with Some show ?thesis by (subst TrimLeft.simps) simp
  qed
qed

lemma TrimRight_prefix: "prefix (TrimRight s) s"
proof (induction s rule: TrimRight.induct)
  case (1 s)
  show ?case
  proof (cases "find (\<lambda>w. suffix w s) space_runes")
    case None
    then show ?thesis by (subst TrimRight.simps) simp
  next
    case (Some w)
    from "1"[OF Some] have "prefix (TrimRight (take (length s - length w) s)) s"
      using take_is_prefix prefix_order.trans by blast
    with Some show ?thesis by (subst TrimRight.simps) simp
  qed
qed

lemma TrimSpace_set: "set (TrimSpace s) \<subseteq> set s"
  using set_mono_prefix[OF TrimRight_prefix[of "TrimLeft s"]]
        set_mono_suffix[OF TrimLeft_suffix[of s]]
  by (auto simp: TrimSpace_def)

lemma parse_line_needs_hash:
  assumes "CHR ''#'' \<notin> set line"
  shows "parse_line line = []"
proof (cases "rematch voicePattern (TrimSpace line)")
  case None
  then show ?thesis by (simp add: parse_line_cases)
next
  case (Some segs)
  from rematch_sound[OF Some] have f: "fits voicePattern segs" and
    c: "concat segs = TrimSpace line" by simp_all
  from fits_voicePatternD[OF f] have "CHR ''#'' \<in> set (concat segs)" by auto
  with c have "CHR ''#'' \<in> set (TrimSpace line)" by simp
  with TrimSpace_set[of line] assms show ?thesis by auto
qed

lemma parse_line_blank: "TrimSpace line = [] \<Longrightarrow> parse_line line = []"
  by (simp add: parse_line_cases rematch_Nil)

lemma concat_map_filter:
  "(\<And>x. x \<in> set xs \<Longrightarrow> \<not> P x \<Longrightarrow> f x = []) \<Longrightarrow>
     concat (map f xs) = concat (map f (filter P xs))"
  by (induction xs) auto

text \<open>
  Claim C3. The line \<open>Albert    en_US    # Hello! My name is Albert.\<close> parses to the one
  record with name \<open>Albert\<close>, locale \<open>en_US\<close> and that description. Text without the
  marker \<open>#\<close> gives no record, and so does a blank line. For any five lines, three of
  them of the expected shape and two not, joined by newlines, the parser returns exactly
  three records: those of the three well-formed lines, in the order of the lines.
\<close>

theorem catalog_lines_parse_in_order:
  "parseVoices ''Albert    en_US    # Hello! My name is Albert.'' =
     [\<lparr>Name = ''Albert'', Locale = ''en_US'', Description = ''Hello! My name is Albert.''\<rparr>] \<and>
   (\<forall>output. CHR ''#'' \<notin> set output \<longrightarrow> parseVoices output = []) \<and>
   (\<forall>line. CHR 0x0A \<notin> set line \<and> TrimSpace line = [] \<longrightarrow> parseVoices line = []) \<and>
   (\<forall>ls. length ls = 5 \<and> (\<forall>l\<in>set ls. CHR 0x0A \<notin> set l) \<and>
         length (filter well_formed_line ls) = 3 \<longrightarrow>
      length (parseVoices (Join ls [CHR 0x0A])) = 3 \<and>
      parseVoices (Join ls [CHR 0x0A]) =
        concat (map parseVoices (filter well_formed_line ls)) \<and>
      (\<forall>l\<in>set ls. length (parseVoices l) = (if well_formed_line l then 1 else 0)))"
proof (intro conjI allI impI)
  show "parseVoices ''Albert    en_US    # Hello! My name is Albert.'' =
     [\<lparr>Name = ''Albert'', Locale = ''en_US'', Description = ''Hello! My name is Albert.''\<rparr>]"
    by code_simp
next
  fix out
  assume h: "CHR ''#'' \<notin> set out"
  have "parse_line l = []" if "l \<in> set (Split out (CHR 0x0A))" for l
    using Split_sets[OF that] h by (intro parse_line_needs_hash) auto
  then show "parseVoices out = []" by (simp add: parseVoices_concat)
next
  fix line
  assume "CHR 0x0A \<notin> set line \<and> TrimSpace line = []"
  then show "parseVoices line = []" by (simp add: parseVoices_single parse_line_blank)
next
  fix ls
  assume h: "length ls = 5 \<and> (\<forall>l\<in>set ls. CHR 0x0A \<notin> set l) \<and>
         length (filter well_formed_line ls) = 3"
  then have nl: "\<forall>l\<in>set ls. CHR 0x0A \<notin> set l" by simp
  have one: "\<forall>l\<in>set ls. length (parseVoices l) = (if well_formed_line l then 1 else 0)"
    using nl by (simp add: parseVoices_single parse_line_length)
  have j: "parseVoices (Join ls [CHR 0x0A]) = concat (map parseVoices ls)"
    using nl by (rule parseVoices_lines)
  show "length (parseVoices (Join ls [CHR 0x0A])) = 3"
    using length_concat_singletons[OF one] h j by simp
  show "parseVoices (Join ls [CHR 0x0A]) =
        concat (map parseVoices (filter well_formed_line ls))"
    unfolding j using one by (intro concat_map_filter) auto
  show "\<forall>l\<in>set ls. length (parseVoices l) = (if well_formed_line l then 1 else 0)"
    by (rule one)
qed

theorem catalog_lines_parse_in_order_witness:
  "length (filter well_formed_line catalog_sample) = 3 \<and>
   length (parseVoices (Join catalog_sample [CHR 0x0A])) = 3 \<and>
   map Name (parseVoices (Join catalog_sample [CHR 0x0A])) = [''Albert'', ''Bad News'', ''Zoe''] \<and>
   parseVoices ''Name  Locale  Sample'' = [] \<and>
   parseVoices ''   '' = []"
proof -
  have a: "length (filter well_formed_line catalog_sample) = 3"
    unfolding well_formed_line_iff by code_simp
  have b: "length catalog_sample = 5 \<and> (\<forall>l\<in>set catalog_sample. CHR 0x0A \<notin> set l) \<and>
           length (filter well_formed_line catalog_sample) = 3"
    using a by (simp add: catalog_sample_def)
  have c: "CHR ''#'' \<notin> set ''Name  Locale  Sample''" by simp
  have "TrimSpace ''   '' = []" by code_simp
  then have d: "CHR 0x0A \<notin> set ''   '' \<and> TrimSpace ''   '' = []" by simp
  have e: "map Name (parseVoices (Join catalog_sample [CHR 0x0A])) =
             [''Albert'', ''Bad News'', ''Zoe'']"
    by code_simp
  note t = catalog_lines_parse_in_order
  from t[THEN conjunct2, THEN conjunct2, THEN conjunct2, THEN spec, THEN mp, OF b]
  have l: "length (parseVoices (Join catalog_sample [CHR 0x0A])) = 3" by (rule conjunct1)
  from t[THEN conjunct2, THEN conjunct1, THEN spec, THEN mp, OF c]
  have m: "parseVoices ''Name  Locale  Sample'' = []" .
  from t[THEN conjunct2, THEN conjunct2, THEN conjunct1, THEN spec, THEN mp, OF d]
  have n: "parseVoices ''   '' = []" .
  from a l e m n show ?thesis by (intro conjI)
qed

section \<open>The fields of a parsed record\<close>




lemma TrimRight_id: "(\<And>w. w \<in> set space_runes \<Longrightarrow> \<not> suffix w s) \<Longrightarrow> TrimRight s = s"
proof -
  assume "\<And>w. w \<in> set space_runes \<Longrightarrow> \<not> suffix w s"
  then have "find (\<lambda>w. suffix w s) space_runes = None" by (auto simp: find_None_iff)
  then show ?thesis by (subst TrimRight.simps) simp
qed













section \<open>The list_voices payload\<close>

lemma Join_shift:
  "xs \<noteq> [] \<Longrightarrow> p @ Join (map f xs) (sep @ p) = Join (map (\<lambda>x. p @ f x) xs) sep"
proof (induction xs)
  case Nil
  then show ?case by simp
next
  case (Cons x xs)
  then show ?case by (cases xs) simp_all
qed

lemma Voice_json_indent:
  "''    '' @ indent_value enc [] ''  '' 2 (Voice_json v) = voice_entry enc v"
  by (simp add: Voice_json_def voice_entry_def newline_def numeral_2_eq_2 numeral_3_eq_3)

lemma voices_document_eq:
  "indent_value enc [] ''  '' 0 (VoicesResponse_json voices) = voices_document enc voices"
proof (cases "voices = []")
  case True
  then show ?thesis
    by (simp add: VoicesResponse_json_def voices_document_def newline_def)
next
  case False
  have n2: "newline [] ''  '' (Suc (Suc 0)) = [CHR 0x0A] @ ''    ''"
    by (simp add: newline_def)
  have "''    '' @ Join (map (indent_value enc [] ''  '' 2) (map Voice_json voices))
                        (('','' @ [CHR 0x0A]) @ ''    '') =
        Join (map (voice_entry enc) voices) ('','' @ [CHR 0x0A])"
    using False Join_shift[of "map Voice_json voices" "''    ''"
            "indent_value enc [] ''  '' 2" "'','' @ [CHR 0x0A]"]
    by (simp add: o_def Voice_json_indent del: append.simps append_Cons)
  then show ?thesis
    using False
    by (simp add: VoicesResponse_json_def voices_document_def newline_def numeral_2_eq_2)
qed

text \<open>Every string the encoder writes is a JSON string.\<close>

lemma hex_nth: "n < 16 \<Longrightarrow> hex_digit (hex ! n)"
proof -
  assume "n < 16"
  then have "n < length hex" by (simp add: hex_def)
  then have "hex ! n \<in> set hex" by (rule nth_mem)
  then show ?thesis by (auto simp: hex_def hex_digit_def)
qed

lemma hex_digits_fixed:
  "hex_digit (CHR ''0'')" "hex_digit (CHR ''2'')" "hex_digit (CHR ''8'')" "hex_digit (CHR ''9'')"
  "hex_digit (CHR ''f'')" "hex_digit (CHR ''d'')"
  by (simp_all add: hex_digit_def)

lemma escape_ascii_chars:
  assumes "byte_in 0x00 0x7F b" "json_chars cs"
  shows "json_chars (escape_ascii b @ cs)"
proof (cases "htmlSafe b")
  case True
  then have "json_unescaped [b]" by (simp add: htmlSafe_def)
  from chars_unescaped[OF this assms(2)] True show ?thesis by (simp add: escape_ascii_def)
next
  case False
  have esc: "json_chars ([CHR 0x5C, e] @ cs)"
    if "e \<in> set [CHR 0x22, CHR 0x5C, CHR 0x2F, CHR ''b'', CHR ''f'', CHR ''n'', CHR ''r'', CHR ''t'']"
    for e using chars_escape[OF that assms(2)] by simp
  have "of_char b div 16 < (16::nat)" "of_char b mod 16 < (16::nat)"
    using assms(1) by (simp_all add: byte_in_def)
  then have "json_chars (CHR 0x5C # CHR ''u'' # CHR ''0'' # CHR ''0'' #
               hex ! (of_char b div 16) # hex ! (of_char b mod 16) # cs)"
    by (intro chars_unicode hex_nth hex_digits_fixed assms(2))
  then have uni: "json_chars ([CHR 0x5C, CHR ''u'', CHR ''0'', CHR ''0'',
            hex ! (of_char b div 16), hex ! (of_char b mod 16)] @ cs)"
    by simp
  consider "b = CHR 0x5C" | "b = CHR 0x22" | "b = CHR 0x08" | "b = CHR 0x0C" | "b = CHR 0x0A"
    | "b = CHR 0x0D" | "b = CHR 0x09"
    | "b \<noteq> CHR 0x5C" "b \<noteq> CHR 0x22" "b \<noteq> CHR 0x08" "b \<noteq> CHR 0x0C" "b \<noteq> CHR 0x0A"
      "b \<noteq> CHR 0x0D" "b \<noteq> CHR 0x09"
    by blast
  then show ?thesis
  proof cases
    case 1
    have "json_chars ([CHR 0x5C, CHR 0x5C] @ cs)" by (rule esc) simp
    with 1 show ?thesis by (simp add: escape_ascii_def htmlSafe_def)
  next
    case 2
    have "json_chars ([CHR 0x5C, CHR 0x22] @ cs)" by (rule esc) simp
    with 2 show ?thesis by (simp add: escape_ascii_def htmlSafe_def)
  next
    case 3
    have "json_chars ([CHR 0x5C, CHR ''b''] @ cs)" by (rule esc) simp
    with 3 show ?thesis by (simp add: escape_ascii_def htmlSafe_def byte_in_def)
  next
    case 4
    have "json_chars ([CHR 0x5C, CHR ''f''] @ cs)" by (rule esc) simp
    with 4 show ?thesis by (simp add: escape_ascii_def htmlSafe_def byte_in_def)
  next
    case 5
    have "json_chars ([CHR 0x5C, CHR ''n''] @ cs)" by (rule esc) simp
    with 5 show ?thesis by (simp add: escape_ascii_def htmlSafe_def byte_in_def)
  next
    case 6
    have "json_chars ([CHR 0x5C, CHR ''r''] @ cs)" by (rule esc) simp
    with 6 show ?thesis by (simp add: escape_ascii_def htmlSafe_def byte_in_def)
  next
    case 7
    have "json_chars ([CHR 0x5C, CHR ''t''] @ cs)" by (rule esc) simp
    with 7 show ?thesis by (simp add: escape_ascii_def htmlSafe_def byte_in_def)
  next
    case 8
    with False uni show ?thesis by (simp add: escape_ascii_def)
  qed
qed


lemma rune_size_rune: "rune_size s = n \<Longrightarrow> n \<noteq> 0 \<Longrightarrow> utf8_rune (take n s)"
  by (auto simp: rune_size_def split: if_splits)

lemma json_unescaped_multibyte:
  assumes "utf8_rune r" "\<not> byte_in 0x00 0x7F (hd r)"
  shows "json_unescaped r"
proof (cases r)
  case Nil
  with assms show ?thesis by simp
next
  case (Cons a r')
  show ?thesis
  proof (cases r')
    case Nil
    with Cons assms show ?thesis by simp
  next
    case (Cons b r'')
    with \<open>r = a # r'\<close> assms(1) show ?thesis by simp
  qed
qed

lemma encode_bytes_chars: "json_chars (encode_bytes s)"
proof (induction "length s" arbitrary: s rule: less_induct)
  case less
  show ?case
  proof (cases s)
    case Nil
    then show ?thesis by (simp add: chars_end)
  next
    case (Cons b bs)
    have ih: "json_chars (encode_bytes (drop k bs))" for k
      by (rule less) (simp add: Cons)
    from ih[of 0] have ih0: "json_chars (encode_bytes bs)" by simp
    show ?thesis
    proof (cases "byte_in 0x00 0x7F b")
      case True
      from escape_ascii_chars[OF True ih0] True show ?thesis by (simp add: Cons)
    next
      case False
      define n where "n = rune_size (b # bs)"
      show ?thesis
      proof (cases "n = 0")
        case True
        have "json_chars (CHR 0x5C # CHR ''u'' # CHR ''f'' # CHR ''f'' # CHR ''f'' # CHR ''d'' # encode_bytes bs)"
          by (intro chars_unicode hex_digits_fixed ih0)
        with True False show ?thesis by (simp add: Cons n_def[symmetric] Let_def)
      next
        case nz: False
        have rune: "utf8_rune (take n (b # bs))"
          by (rule rune_size_rune[OF n_def[symmetric] nz])
        have hd: "hd (take n (b # bs)) = b" using nz by (cases n) simp_all
        have un: "json_unescaped (take n (b # bs))"
          by (rule json_unescaped_multibyte[OF rune]) (simp add: hd False)
        have a: "json_chars (CHR 0x5C # CHR ''u'' # CHR ''2'' # CHR ''0'' # CHR ''2'' # CHR ''8'' # encode_bytes (drop (n - 1) bs))"
          by (intro chars_unicode hex_digits_fixed ih)
        have b: "json_chars (CHR 0x5C # CHR ''u'' # CHR ''2'' # CHR ''0'' # CHR ''2'' # CHR ''9'' # encode_bytes (drop (n - 1) bs))"
          by (intro chars_unicode hex_digits_fixed ih)
        have c: "json_chars (take n (b # bs) @ encode_bytes (drop (n - 1) bs))"
          by (rule chars_unescaped[OF un ih])
        have "encode_bytes (b # bs) =
           (if take n (b # bs) = [CHR 0xE2, CHR 0x80, CHR 0xA8] then [CHR 0x5C] @ ''u2028'' @ encode_bytes (drop (n - 1) bs)
            else if take n (b # bs) = [CHR 0xE2, CHR 0x80, CHR 0xA9] then [CHR 0x5C] @ ''u2029'' @ encode_bytes (drop (n - 1) bs)
            else take n (b # bs) @ encode_bytes (drop (n - 1) bs))"
          using False nz by (simp only: encode_bytes.simps n_def[symmetric] Let_def if_False)
        moreover have "json_chars \<dots>"
          using a b c by (simp only: split: if_split) simp
        ultimately show ?thesis by (simp only: Cons)
      qed
    qed
  qed
qed

lemma encodeString_json: "json_string (encodeString s)"
  unfolding json_string_def encodeString_def
  by (intro exI[of _ "encode_bytes s"] conjI refl encode_bytes_chars)

text \<open>The voice document is a JSON value when its strings are.\<close>

lemma json_ws_simps:
  "json_ws []" "json_ws (c # s) = (c \<in> {CHR 0x20, CHR 0x09, CHR 0x0A, CHR 0x0D} \<and> json_ws s)"
  "json_ws (a @ b) = (json_ws a \<and> json_ws b)"
  by (auto simp: json_ws_def)

lemma plain_chars: "\<forall>c\<in>set k. json_unescaped [c] \<Longrightarrow> json_chars k"
proof (induction k)
  case Nil
  show ?case by (rule chars_end)
next
  case (Cons c k)
  then have "json_unescaped [c]" "json_chars k" by simp_all
  from chars_unescaped[OF this] show ?case by simp
qed

lemma plain_string: "\<forall>c\<in>set k. json_unescaped [c] \<Longrightarrow> json_string ([CHR 0x22] @ k @ [CHR 0x22])"
  unfolding json_string_def by (intro exI[of _ k] conjI refl plain_chars)

lemma field_names_json:
  "json_string ([CHR 0x22] @ ''voices'' @ [CHR 0x22])"
  "json_string ([CHR 0x22] @ ''name'' @ [CHR 0x22])"
  "json_string ([CHR 0x22] @ ''locale'' @ [CHR 0x22])"
  "json_string ([CHR 0x22] @ ''description'' @ [CHR 0x22])"
  by (rule plain_string, simp add: byte_in_def)+

lemma voice_entry_json:
  assumes enc: "\<And>s. json_string (enc s)" and a: "json_ws a" and b: "json_ws b"
  shows "json_value (a @ voice_entry enc v @ b)"
proof -
  let ?in = "[CHR 0x0A] @ ''      ''"
  let ?v1 = "'' '' @ enc (Name v) @ []"
  let ?v2 = "'' '' @ enc (Locale v) @ []"
  let ?v3 = "'' '' @ enc (Description v) @ ([CHR 0x0A] @ ''    '')"
  have v1: "json_value ?v1" and v2: "json_value ?v2" and v3: "json_value ?v3"
    by (rule value_string; simp add: json_ws_simps enc)+
  have i: "json_ws ?in" and e: "json_ws []" by (simp_all add: json_ws_simps)
  let ?m3 = "?in @ ([CHR 0x22] @ ''description'' @ [CHR 0x22]) @ [] @ '':'' @ ?v3"
  have m3: "json_members ?m3"
    by (rule members_last[OF i field_names_json(4) e v3])
  let ?m2 = "?in @ ([CHR 0x22] @ ''locale'' @ [CHR 0x22]) @ [] @ '':'' @ ?v2 @ '','' @ ?m3"
  have m2: "json_members ?m2"
    by (rule members_more[OF i field_names_json(3) e v2 m3])
  let ?m1 = "?in @ ([CHR 0x22] @ ''name'' @ [CHR 0x22]) @ [] @ '':'' @ ?v1 @ '','' @ ?m2"
  have m1: "json_members ?m1"
    by (rule members_more[OF i field_names_json(2) e v1 m2])
  have "json_ws (a @ ''    '')" using a by (simp add: json_ws_simps)
  from value_object[OF this m1 b] show ?thesis
    by (simp add: voice_entry_def)
qed

lemma voice_entries_json:
  assumes enc: "\<And>s. json_string (enc s)" and ne: "voices \<noteq> []"
  shows "json_elements ([CHR 0x0A] @ Join (map (voice_entry enc) voices) ('','' @ [CHR 0x0A]) @
                        [CHR 0x0A] @ ''  '')"
  using ne
proof (induction voices)
  case Nil
  then show ?case by simp
next
  case (Cons v vs)
  show ?case
  proof (cases vs)
    case Nil
    have "json_value ([CHR 0x0A] @ voice_entry enc v @ ([CHR 0x0A] @ ''  ''))"
      by (rule voice_entry_json[OF enc]) (simp_all add: json_ws_simps)
    from elements_last[OF this] Nil show ?thesis by simp
  next
    case (Cons w ws)
    have "json_value ([CHR 0x0A] @ voice_entry enc v @ [])"
      by (rule voice_entry_json[OF enc]) (simp_all add: json_ws_simps)
    moreover have "json_elements ([CHR 0x0A] @ Join (map (voice_entry enc) vs) ('','' @ [CHR 0x0A]) @
                        [CHR 0x0A] @ ''  '')"
      by (rule Cons.IH) (simp add: Cons)
    ultimately have "json_elements (([CHR 0x0A] @ voice_entry enc v @ []) @ '','' @
        ([CHR 0x0A] @ Join (map (voice_entry enc) vs) ('','' @ [CHR 0x0A]) @ [CHR 0x0A] @ ''  ''))"
      by (rule elements_more)
    then show ?thesis by (simp add: Cons)
  qed
qed

lemma voices_document_json:
  assumes enc: "\<And>s. json_string (enc s)"
  shows "json_value (voices_document enc voices)"
proof -
  have e: "json_ws []" and i: "json_ws ([CHR 0x0A] @ ''  '')" and s: "json_ws '' ''" and n: "json_ws [CHR 0x0A]"
    by (simp_all add: json_ws_simps)
  have arr: "json_value ('' '' @ ''['' @
               (if voices = [] then []
                else [CHR 0x0A] @ Join (map (voice_entry enc) voices) ('','' @ [CHR 0x0A]) @ [CHR 0x0A] @ ''  '') @
               '']'' @ [CHR 0x0A])" (is "json_value ?arr")
  proof (cases "voices = []")
    case True
    from value_empty_array[OF s e n] True show ?thesis by simp
  next
    case False
    from value_array[OF s voice_entries_json[OF enc False] n] False show ?thesis by simp
  qed
  have "json_members (([CHR 0x0A] @ ''  '') @ ([CHR 0x22] @ ''voices'' @ [CHR 0x22]) @ [] @ '':'' @ ?arr)"
    by (rule members_last[OF i field_names_json(1) e arr])
  from value_object[OF e this e] show ?thesis
    by (cases "voices = []") (simp_all add: voices_document_def)
qed


text \<open>A double quote alone between two quotes is no JSON string: string values need the encoder.\<close>

lemma bare_quote_not_chars: "\<not> json_chars [CHR 0x22]"
proof
  assume "json_chars [CHR 0x22]"
  then show False
  proof (cases rule: json_chars.cases)
    case (chars_unescaped r cs)
    from chars_unescaped(1) have "r = [] \<or> r = [CHR 0x22]"
      by (cases r) (simp_all add: Cons_eq_append_conv)
    then show False
    proof
      assume "r = []" with chars_unescaped(2) show False by simp
    next
      assume "r = [CHR 0x22]" with chars_unescaped(2) show False by simp
    qed
  qed
qed

lemma bare_quote_not_string: "\<not> json_string ([CHR 0x22] @ [CHR 0x22] @ [CHR 0x22])"
  by (simp add: json_string_def bare_quote_not_chars)

text \<open>Every text is its lines joined by newlines, so the lines below range over every output.\<close>

lemma Join_Cons_head: "Join ((c # l) # ls) sep = c # Join (l # ls) sep"
  by (cases ls) simp_all

lemma every_text_is_joined_lines:
  "\<exists>ls. ls \<noteq> [] \<and> s = Join ls [CHR 0x0A] \<and> (\<forall>l\<in>set ls. CHR 0x0A \<notin> set l)"
proof (induction s)
  case Nil
  have "[[]] \<noteq> [] \<and> [] = Join [[]] [CHR 0x0A] \<and> (\<forall>l\<in>set [[]]. CHR 0x0A \<notin> set l)"
    by simp
  then show ?case by (rule exI)
next
  case (Cons c s)
  then obtain l ls where s: "s = Join (l # ls) [CHR 0x0A]"
    and nl: "\<forall>k\<in>set (l # ls). CHR 0x0A \<notin> set k"
    by (metis neq_Nil_conv)
  show ?case
  proof (cases "c = CHR 0x0A")
    case True
    have "[] # l # ls \<noteq> [] \<and> c # s = Join ([] # l # ls) [CHR 0x0A] \<and>
          (\<forall>k\<in>set ([] # l # ls). CHR 0x0A \<notin> set k)"
      using s nl True by simp
    then show ?thesis by (rule exI)
  next
    case False
    have "(c # l) # ls \<noteq> [] \<and> c # s = Join ((c # l) # ls) [CHR 0x0A] \<and>
          (\<forall>k\<in>set ((c # l) # ls). CHR 0x0A \<notin> set k)"
      using s nl False by (simp add: Join_Cons_head)
    then show ?thesis by (rule exI)
  qed
qed

lemma parse_line_records:
  "list_all2 (\<lambda>l v. parse_line l = [v]) (filter well_formed_line ls) (concat (map parse_line ls))"
proof (induction ls)
  case Nil
  show ?case by simp
next
  case (Cons l ls)
  show ?case
  proof (cases "well_formed_line l")
    case True
    then have "length (parse_line l) = 1" by (simp add: parse_line_length)
    then obtain v where "parse_line l = [v]" by (cases "parse_line l") simp_all
    with True Cons show ?thesis by simp
  next
    case False
    then have "length (parse_line l) = 0" by (simp add: parse_line_length)
    then have "parse_line l = []" by simp
    with False Cons show ?thesis by simp
  qed
qed

text \<open>
  Claim C9. Let the listing command succeed with the lines \<open>ls\<close>, joined by newlines, as
  its output (every output is of this form, by \<open>every_text_is_joined_lines\<close>). Then the records returned are those of the lines of the expected shape, one
  for each and in the order of the lines; both versions of \<open>handleVoices\<close> return as text
  the voice document of these records: the single field \<open>voices\<close> holding, in that order,
  one object per record with exactly the fields \<open>name\<close>, \<open>locale\<close> and
  \<open>description\<close>, indented by two spaces per level. This text is a JSON value whenever
  the encoder of string values writes JSON strings, as the encoder of \<open>encoding/json\<close>
  does.
\<close>

theorem list_voices_payload:
  assumes "Err (run sayCommand [''-v'', ''?'']) = None"
      and "Output (run sayCommand [''-v'', ''?'']) = Join ls [CHR 0x0A]"
      and "\<forall>l\<in>set ls. CHR 0x0A \<notin> set l"
  shows "list_all2 (\<lambda>l v. parse_line l = [v])
           (filter well_formed_line ls) (concat (map parse_line ls)) \<and>
         fst (handleVoices_main enc ctxErr run request) =
           ToolResultText (voices_document enc (concat (map parse_line ls))) \<and>
         fst (handleVoices_part enc ctxErr run request) =
           ToolResultText (voices_document enc (concat (map parse_line ls))) \<and>
         ((\<forall>s. json_string (enc s)) \<longrightarrow>
            json_value (voices_document enc (concat (map parse_line ls)))) \<and>
         json_value (voices_document encodeString (concat (map parse_line ls)))"
proof -
  have "map parseVoices ls = map parse_line ls"
    using assms(3) by (simp add: parseVoices_single)
  with parseVoices_lines[OF assms(3)]
  have p: "parseVoices (Output (run sayCommand [''-v'', ''?''])) = concat (map parse_line ls)"
    by (simp add: assms(2))
  have m: "fst (handleVoices_main enc ctxErr run request) =
             ToolResultText (voices_document enc (concat (map parse_line ls)))"
    using assms(1)
    by (simp add: handleVoices_main_def Let_def MarshalIndent_def voices_document_eq p)
  have q: "fst (handleVoices_part enc ctxErr run request) =
             ToolResultText (voices_document enc (concat (map parse_line ls)))"
    using assms(1)
    by (simp add: handleVoices_part_def Let_def MarshalIndent_def voices_document_eq p)
  have j: "(\<forall>s. json_string (enc s)) \<longrightarrow>
             json_value (voices_document enc (concat (map parse_line ls)))"
    by (intro impI voices_document_json) simp
  have k: "json_value (voices_document encodeString (concat (map parse_line ls)))"
    by (rule voices_document_json) (rule encodeString_json)
  from parse_line_records m q j k show ?thesis by (intro conjI)
qed

theorem list_voices_payload_witness:
  "fst (handleVoices_main encodeString None (run_ok (Join voices_sample [CHR 0x0A])) (request_of [])) =
     ToolResultText voices_sample_document \<and>
   fst (handleVoices_part encodeString None (run_ok (Join voices_sample [CHR 0x0A])) (request_of [])) =
     ToolResultText voices_sample_document \<and>
   json_value voices_sample_document"
proof -
  have a: "Err (run_ok (Join voices_sample [CHR 0x0A]) sayCommand [''-v'', ''?'']) = None"
    by (simp add: run_ok_def)
  have b: "Output (run_ok (Join voices_sample [CHR 0x0A]) sayCommand [''-v'', ''?'']) =
             Join voices_sample [CHR 0x0A]"
    by (simp add: run_ok_def)
  have c: "\<forall>l\<in>set voices_sample. CHR 0x0A \<notin> set l"
    by (simp add: voices_sample_def)
  have d: "\<forall>s. json_string (encodeString s)"
    by (simp add: encodeString_json)
  have e: "voices_document encodeString (concat (map parse_line voices_sample)) =
             voices_sample_document"
    by code_simp
  note t = list_voices_payload[where run = "run_ok (Join voices_sample [CHR 0x0A])"
             and ls = voices_sample and enc = encodeString and ctxErr = None
             and request = "request_of []", OF a b c, unfolded e]
  from t[THEN conjunct2, THEN conjunct1]
       t[THEN conjunct2, THEN conjunct2, THEN conjunct1]
       t[THEN conjunct2, THEN conjunct2, THEN conjunct2, THEN conjunct1, THEN mp, OF d]
  show ?thesis by (intro conjI)
qed

end
